theory Spec2Isabelle
  imports Main "HOL-Library.Word"
begin

unbundle bit_operations_syntax

section \<open>The HD44780 driver of \<^verbatim>\<open>Tests/LCD/lcd.c\<close>\<close>

text \<open>
  The driver is configured by \<^verbatim>\<open>lcd.h\<close>: every line of the display hangs on port A
  (RS on pin 4, EN on pin 5, R/W on pin 6, DB4..DB7 on pins 0..3), \<^verbatim>\<open>LCD_BUSY_TIMEOUT\<close>
  is not defined (the driver paces the controller with delays), \<^verbatim>\<open>LCD_CC_TILDE\<close> is 1,
  \<^verbatim>\<open>LCD_CC_BACKSLASH\<close> is 2 and \<^verbatim>\<open>LCD_CC_IXI\<close> is not defined.

  The state of the program is its two globals, the two port registers it writes, and
  the history of what the display has seen on the bus: every delay, and every falling
  edge of EN together with the levels of RS and DB7..DB4 at that moment (the controller
  latches a nibble on the falling edge of EN).
\<close>

subsection \<open>State and bus\<close>

datatype bus_event =
    Pulse bool "8 word"   \<comment> \<open>falling edge of EN: level of RS, nibble on DB7..DB4\<close>
  | DelayUs nat
  | DelayMs nat

record lcd_state =
  PORTA :: "8 word"
  DDRA :: "8 word"
  lcdCursor :: "8 word"
  utf8Buffer :: "32 word"
  bus :: "bus_event list"

definition RS_PIN :: nat where "RS_PIN = 4"
definition EN_PIN :: nat where "EN_PIN = 5"
definition RW_PIN :: nat where "RW_PIN = 6"
definition DB4_PIN :: nat where "DB4_PIN = 0"
definition DB5_PIN :: nat where "DB5_PIN = 1"
definition DB6_PIN :: nat where "DB6_PIN = 2"
definition DB7_PIN :: nat where "DB7_PIN = 3"

text \<open>The globals as the C start-up code leaves them, the port registers as the AVR
  resets them, and nothing on the bus yet.\<close>

definition lcd_power_on :: lcd_state where
  "lcd_power_on = \<lparr>PORTA = 0, DDRA = 0, lcdCursor = 0, utf8Buffer = 0, bus = []\<rparr>"

definition delay_us :: "nat \<Rightarrow> lcd_state \<Rightarrow> lcd_state" where
  "delay_us n s = s\<lparr>bus := bus s @ [DelayUs n]\<rparr>"

definition delayMs :: "nat \<Rightarrow> lcd_state \<Rightarrow> lcd_state" where
  "delayMs n s = s\<lparr>bus := bus s @ [DelayMs n]\<rparr>"

text \<open>\<^verbatim>\<open>PORT |= (1 << pin)\<close> and \<^verbatim>\<open>PORT &= ~(1 << pin)\<close> on the two registers.\<close>

definition port_set :: "nat \<Rightarrow> lcd_state \<Rightarrow> lcd_state" where
  "port_set pin s = s\<lparr>PORTA := PORTA s OR push_bit pin 1\<rparr>"

definition port_clear :: "nat \<Rightarrow> lcd_state \<Rightarrow> lcd_state" where
  "port_clear pin s = s\<lparr>PORTA := PORTA s AND NOT (push_bit pin 1)\<rparr>"

definition ddr_set :: "nat \<Rightarrow> lcd_state \<Rightarrow> lcd_state" where
  "ddr_set pin s = s\<lparr>DDRA := DDRA s OR push_bit pin 1\<rparr>"

text \<open>\<^verbatim>\<open>PORT = (PORT & ~(1 << pin)) | (v << pin)\<close>.\<close>

definition port_put :: "nat \<Rightarrow> 8 word \<Rightarrow> lcd_state \<Rightarrow> lcd_state" where
  "port_put pin v s = s\<lparr>PORTA := (PORTA s AND NOT (push_bit pin 1)) OR push_bit pin v\<rparr>"

text \<open>\<^verbatim>\<open>EN_REG_PORT |= (1 << EN_PIN)\<close> and \<^verbatim>\<open>EN_REG_PORT &= ~(1 << EN_PIN)\<close>. Pulling EN
  low while it is high is the falling edge on which the display reads RS and DB7..DB4.\<close>

definition en_high :: "lcd_state \<Rightarrow> lcd_state" where
  "en_high s = port_set EN_PIN s"

definition en_low :: "lcd_state \<Rightarrow> lcd_state" where
  "en_low s =
     port_clear EN_PIN
       (if bit (PORTA s) EN_PIN
        then s\<lparr>bus := bus s @ [Pulse (bit (PORTA s) RS_PIN)
                 (of_bool (bit (PORTA s) DB4_PIN)
                  OR push_bit 1 (of_bool (bit (PORTA s) DB5_PIN))
                  OR push_bit 2 (of_bool (bit (PORTA s) DB6_PIN))
                  OR push_bit 3 (of_bool (bit (PORTA s) DB7_PIN)))]\<rparr>
        else s)"

subsection \<open>Nibble and byte transmitter\<close>

definition sendNibble :: "8 word \<Rightarrow> 8 word \<Rightarrow> lcd_state \<Rightarrow> lcd_state" where
  "sendNibble regSel nibble s =
     (let s = port_put RS_PIN regSel s;
          s = port_put DB4_PIN (drop_bit 0 nibble AND 1) s;
          s = port_put DB5_PIN (drop_bit 1 nibble AND 1) s;
          s = port_put DB6_PIN (drop_bit 2 nibble AND 1) s;
          s = port_put DB7_PIN (drop_bit 3 nibble AND 1) s;
          s = delay_us 1 s;
          s = en_high s;
          s = delay_us 1 s;
          s = en_low s;
          s = delay_us 1 s
      in s)"

text \<open>\<^verbatim>\<open>sendByte\<close> without \<^verbatim>\<open>LCD_BUSY_TIMEOUT\<close>: upper nibble, then lower nibble. The
  \<^verbatim>\<open>ATOMIC_BLOCK\<close> around them keeps interrupts out, and the model has none.\<close>

definition sendByte :: "8 word \<Rightarrow> 8 word \<Rightarrow> lcd_state \<Rightarrow> lcd_state" where
  "sendByte regSel c s = sendNibble regSel (c AND 0x0f) (sendNibble regSel (drop_bit 4 c) s)"

text \<open>The macro \<^verbatim>\<open>SEND_BYTE(regSel, c, delay)\<close> without \<^verbatim>\<open>LCD_BUSY_TIMEOUT\<close>.\<close>

definition SEND_BYTE :: "8 word \<Rightarrow> 8 word \<Rightarrow> nat \<Rightarrow> lcd_state \<Rightarrow> lcd_state" where
  "SEND_BYTE regSel c d s = delay_us d (sendByte regSel c s)"

subsection \<open>Cursor\<close>

definition updateCursor :: "lcd_state \<Rightarrow> lcd_state" where
  "updateCursor s =
     (let address =
            (if lcdCursor s < 16 then lcdCursor s
             else if lcdCursor s < 32 then 0x40 OR (lcdCursor s AND 0x0f)
             else 0x00)
      in SEND_BYTE 0 (0x80 OR address) 42 s)"

definition lcd_line1 :: "lcd_state \<Rightarrow> lcd_state" where
  "lcd_line1 s = updateCursor (s\<lparr>lcdCursor := 0\<rparr>)"

definition lcd_line2 :: "lcd_state \<Rightarrow> lcd_state" where
  "lcd_line2 s = updateCursor (s\<lparr>lcdCursor := 16\<rparr>)"

definition lcd_goto :: "8 word \<Rightarrow> 8 word \<Rightarrow> lcd_state \<Rightarrow> lcd_state" where
  "lcd_goto row0 column0 s =
     (let row = (if row0 < 1 then 1 else row0);
          row = (if row > 2 then 2 else row);
          column = (if column0 < 1 then 1 else column0);
          column = (if column > 16 then 16 else column)
      in updateCursor (s\<lparr>lcdCursor := push_bit 4 (row - 1) OR (column - 1)\<rparr>))"

text \<open>The arguments of \<^verbatim>\<open>lcd_move\<close> are of type \<^verbatim>\<open>char\<close>, signed for avr-gcc; the sums are
  computed in \<^verbatim>\<open>int\<close> and cut to eight bits by the assignment.\<close>

definition lcd_move :: "8 word \<Rightarrow> 8 word \<Rightarrow> lcd_state \<Rightarrow> lcd_state" where
  "lcd_move row column s =
     (let newRow = (word_of_int ((uint (drop_bit 4 (lcdCursor s)) + (sint row + 1)) AND 1) :: 8 word);
          newCol = (word_of_int ((uint (lcdCursor s) + (sint column + 15)) AND 0x0f) :: 8 word)
      in updateCursor (s\<lparr>lcdCursor := push_bit 4 newRow OR newCol\<rparr>))"

definition lcd_back :: "lcd_state \<Rightarrow> lcd_state" where
  "lcd_back s =
     updateCursor (if lcdCursor s = 0 then s\<lparr>lcdCursor := 31\<rparr>
                   else s\<lparr>lcdCursor := lcdCursor s - 1\<rparr>)"

definition lcd_home :: "lcd_state \<Rightarrow> lcd_state" where
  "lcd_home s = updateCursor (s\<lparr>lcdCursor := lcdCursor s AND 0x10\<rparr>)"

definition lcd_forward :: "lcd_state \<Rightarrow> lcd_state" where
  "lcd_forward s =
     updateCursor (if lcdCursor s = 31 then s\<lparr>lcdCursor := 0\<rparr>
                   else s\<lparr>lcdCursor := lcdCursor s + 1\<rparr>)"

definition lcd_clear :: "lcd_state \<Rightarrow> lcd_state" where
  "lcd_clear s = (SEND_BYTE 0 0x01 1640 s)\<lparr>lcdCursor := 0\<rparr>"

subsection \<open>UTF-8 decoding and the glyph table\<close>

text \<open>The test of \<^verbatim>\<open>lcd_writeChar\<close> on the buffer after the new byte has been shifted in:
  \<open>Some codePoint\<close> where the C code goes on to \<^verbatim>\<open>utf8Buffer = 0\<close>, \<open>None\<close> where it
  returns at "Incomplete character, wait for more before writing".\<close>

definition utf8_decode :: "32 word \<Rightarrow> 32 word option" where
  "utf8_decode buf =
     (if buf AND 0xf8000000 = 0xf0000000 then
        Some (if buf AND 0x00c0c0c0 = 0x00808080
              then drop_bit 6 (buf AND 0x07000000) OR drop_bit 4 (buf AND 0x003f0000)
                   OR drop_bit 2 (buf AND 0x00003f00) OR (buf AND 0x0000003f)
              else 0x0000fffd)
      else if buf AND 0xfff00000 = 0x00e00000 then
        Some (if buf AND 0x0000c0c0 = 0x00008080
              then drop_bit 4 (buf AND 0x000f0000) OR drop_bit 2 (buf AND 0x00003f00)
                   OR (buf AND 0x0000003f)
              else 0x0000fffd)
      else if buf AND 0xffffe000 = 0x0000c000 then
        Some (if buf AND 0x000000c0 = 0x00000080
              then drop_bit 2 (buf AND 0x00001f00) OR (buf AND 0x0000003f)
              else 0x0000fffd)
      else if buf AND 0xffffff80 = 0x00000000 then Some buf
      else None)"

text \<open>The slots of the two custom glyphs that \<^verbatim>\<open>lcd.h\<close> defines.\<close>

definition LCD_CC_TILDE :: "8 word" where "LCD_CC_TILDE = 1"

definition LCD_CC_BACKSLASH :: "8 word" where "LCD_CC_BACKSLASH = 2"

text \<open>The \<^verbatim>\<open>switch(codePoint)\<close> of \<^verbatim>\<open>lcd_writeChar\<close>, which computes the local \<^verbatim>\<open>lcdCode\<close>.\<close>

definition lcdCode :: "32 word \<Rightarrow> 8 word" where
  "lcdCode codePoint =
     (if codePoint = 0x0000005c then LCD_CC_BACKSLASH
      else if codePoint = 0x0000007e then LCD_CC_TILDE
      else if codePoint = 0x0000009d then 0x5c
      else if codePoint = 0x00002192 then 0x7e
      else if codePoint = 0x00002190 then 0x7f
      else if codePoint = 0x00002092 then 0xa1
      else if codePoint = 0x000000da then 0xa2
      else if codePoint = 0x000000d9 then 0xa3
      else if codePoint = 0x000000b7 then 0xa5
      else if codePoint = 0x00002203 \<or> codePoint = 0x0000018e then 0xae
      else if codePoint = 0x000025af \<or> codePoint = 0x000025a1 then 0xdb
      else if codePoint = 0x000000b0 then 0xdf
      else if codePoint = 0x000003b1 then 0xe0
      else if codePoint = 0x000000e4 then 0xe1
      else if codePoint = 0x000003b2 \<or> codePoint = 0x000000df then 0xe2
      else if codePoint = 0x000003b5 \<or> codePoint = 0x00000190 then 0xe3
      else if codePoint = 0x000003bc \<or> codePoint = 0x000000b5 then 0xe4
      else if codePoint = 0x000003c3 then 0xe5
      else if codePoint = 0x000003c1 then 0xe6
      else if codePoint = 0x0000221a then 0xe8
      else if codePoint = 0x0000215f then 0xe9
      else if codePoint = 0x000000a2 then 0xec
      else if codePoint = 0x000000f1 then 0xee
      else if codePoint = 0x000000f6 then 0xef
      else if codePoint = 0x000003b8 then 0xf2
      else if codePoint = 0x0000221e then 0xf3
      else if codePoint = 0x000003a9 then 0xf4
      else if codePoint = 0x000000fc then 0xf5
      else if codePoint = 0x000003a3 then 0xf6
      else if codePoint = 0x000003c0 then 0xf7
      else if codePoint = 0x000000f7 then 0xfd
      else if codePoint = 0x000025ae \<or> codePoint = 0x000025a0 then 0xff
      else if codePoint \<le> 0x00000080 then ucast codePoint
      else 0xff)"

subsection \<open>Writing\<close>

definition lcd_writeChar :: "8 word \<Rightarrow> lcd_state \<Rightarrow> lcd_state" where
  "lcd_writeChar character s =
     (let s = s\<lparr>utf8Buffer := push_bit 8 (utf8Buffer s) OR ucast character\<rparr>
      in case utf8_decode (utf8Buffer s) of
           None \<Rightarrow> s
         | Some codePoint \<Rightarrow>
             (let s = s\<lparr>utf8Buffer := 0\<rparr>
              in if codePoint = 0x0a then
                   updateCursor (if lcdCursor s < 16 then s\<lparr>lcdCursor := 16\<rparr>
                                 else s\<lparr>lcdCursor := 32\<rparr>)
                 else
                   (let s = (if lcdCursor s = 32 then lcd_clear s
                             else if lcdCursor s = 16 then lcd_line2 s
                             else s);
                        s = SEND_BYTE 1 (lcdCode codePoint) 46 s
                    in s\<lparr>lcdCursor := lcdCursor s + 1\<rparr>)))"

text \<open>A string is the bytes from the pointer on; the loop stops at the NUL byte.\<close>

fun lcd_writeString :: "8 word list \<Rightarrow> lcd_state \<Rightarrow> lcd_state" where
  "lcd_writeString [] s = s"
| "lcd_writeString (c # text) s = (if c = 0 then s else lcd_writeString text (lcd_writeChar c s))"

fun lcd_writeProgString :: "8 word list \<Rightarrow> lcd_state \<Rightarrow> lcd_state" where
  "lcd_writeProgString [] s = s"
| "lcd_writeProgString (c # string) s =
     (if c = 0 then s else lcd_writeProgString string (lcd_writeChar c s))"

definition lcd_erase :: "8 word \<Rightarrow> lcd_state \<Rightarrow> lcd_state" where
  "lcd_erase line s =
     (let cursorBackup = lcdCursor s;
          s = lcd_goto line 1 s;
          s = lcd_writeProgString (replicate 16 0x20 @ [0]) s
      in updateCursor (s\<lparr>lcdCursor := cursorBackup\<rparr>))"

subsection \<open>Decimal output\<close>

text \<open>Dividing by zero is undefined behaviour in C; the model returns it as an error.\<close>

datatype error = DivisionByZero

text \<open>The first loop of \<^verbatim>\<open>lcd_writeDec\<close>: \<^verbatim>\<open>while(number / mask == 0) mask /= 10;\<close>\<close>

function writeDec_scale :: "16 word \<Rightarrow> 16 word \<Rightarrow> error + 16 word" where
  "writeDec_scale number mask' =
     (if mask' = 0 then Inl DivisionByZero
      else if number div mask' = 0 then writeDec_scale number (mask' div 10)
      else Inr mask')"
  by pat_completeness auto
termination
proof (relation "measure (\<lambda>(number, mask'). unat mask')")
  show "wf (measure (\<lambda>(number :: 16 word, mask' :: 16 word). unat mask'))"
    by simp
next
  fix number mask' :: "16 word"
  assume "mask' \<noteq> 0"
  then have "0 < unat mask'"
    by (simp add: unat_gt_0)
  then have "unat mask' div 10 < unat mask'"
    by simp
  then show "((number, mask' div 10), (number, mask')) \<in> measure (\<lambda>(number, mask'). unat mask')"
    by (simp add: unat_div)
qed

text \<open>The second loop: \<^verbatim>\<open>while(mask) { lcd_writeChar('0' + number / mask); number %= mask;
  mask /= 10; }\<close>. Its divisions are behind the loop test.\<close>

function writeDec_digits :: "16 word \<Rightarrow> 16 word \<Rightarrow> lcd_state \<Rightarrow> lcd_state" where
  "writeDec_digits number mask' s =
     (if mask' = 0 then s
      else writeDec_digits (number mod mask') (mask' div 10)
             (lcd_writeChar (ucast (0x30 + number div mask')) s))"
  by pat_completeness auto
termination
proof (relation "measure (\<lambda>(number, mask', s). unat mask')")
  show "wf (measure (\<lambda>(number :: 16 word, mask' :: 16 word, s :: lcd_state). unat mask'))"
    by simp
next
  fix number mask' :: "16 word" and s :: lcd_state
  assume "mask' \<noteq> 0"
  then have "0 < unat mask'"
    by (simp add: unat_gt_0)
  then have "unat mask' div 10 < unat mask'"
    by simp
  then show "((number mod mask', mask' div 10, lcd_writeChar (ucast (0x30 + number div mask')) s),
              (number, mask', s)) \<in> measure (\<lambda>(number, mask', s). unat mask')"
    by (simp add: unat_div)
qed

definition lcd_writeDec :: "16 word \<Rightarrow> lcd_state \<Rightarrow> error + lcd_state" where
  "lcd_writeDec number s =
     (let s = (if number = 0 then lcd_writeChar 0x30 s else s)
      in case writeDec_scale number 10000 of
           Inl e \<Rightarrow> Inl e
         | Inr mask' \<Rightarrow> Inr (writeDec_digits number mask' s))"

declare writeDec_digits.simps [simp del] writeDec_scale.simps [simp del]

text \<open>The decimal digits of a number, most significant first and without leading zeros
  (the number 0 is the single digit 0), and the character of a digit.\<close>

fun decimal :: "nat \<Rightarrow> nat list" where
  "decimal n = (if n < 10 then [n] else decimal (n div 10) @ [n mod 10])"

declare decimal.simps [simp del]

definition digit_char :: "nat \<Rightarrow> 8 word" where
  "digit_char d = of_nat (48 + d)"

subsection \<open>Custom characters and initialisation\<close>

text \<open>The loop \<^verbatim>\<open>for(uint8_t i = 0; i < 8; i++) { SEND_BYTE(1, (uint8_t)chr, 46); chr >>= 8; }\<close>,
  by the number of rounds left.\<close>

primrec registerCustomChar_loop :: "nat \<Rightarrow> 64 word \<Rightarrow> lcd_state \<Rightarrow> lcd_state" where
  "registerCustomChar_loop 0 chr s = s"
| "registerCustomChar_loop (Suc k) chr s =
     registerCustomChar_loop k (drop_bit 8 chr) (SEND_BYTE 1 (ucast chr) 46 s)"

text \<open>The argument \<^verbatim>\<open>0b01000000 | (8 * addr)\<close> is computed in the 16-bit \<^verbatim>\<open>int\<close> of the AVR
  and cut to the \<^verbatim>\<open>uint8_t\<close> parameter of \<^verbatim>\<open>sendByte\<close>.\<close>

definition lcd_registerCustomChar :: "8 word \<Rightarrow> 64 word \<Rightarrow> lcd_state \<Rightarrow> lcd_state" where
  "lcd_registerCustomChar addr chr s =
     (let s = SEND_BYTE 0 (ucast (0x40 OR (8 * (ucast addr :: 16 word)))) 42 s;
          s = registerCustomChar_loop 8 chr s
      in updateCursor s)"

text \<open>The macro \<^verbatim>\<open>CUSTOM_CHAR\<close> and the two bitmaps of \<^verbatim>\<open>lcd.h\<close>.\<close>

definition CUSTOM_CHAR ::
  "64 word \<Rightarrow> 64 word \<Rightarrow> 64 word \<Rightarrow> 64 word \<Rightarrow> 64 word \<Rightarrow> 64 word \<Rightarrow> 64 word \<Rightarrow> 64 word \<Rightarrow> 64 word"
where
  "CUSTOM_CHAR cc0 cc1 cc2 cc3 cc4 cc5 cc6 cc7 =
     0 OR push_bit (0 * 8) cc0 OR push_bit (1 * 8) cc1 OR push_bit (2 * 8) cc2
       OR push_bit (3 * 8) cc3 OR push_bit (4 * 8) cc4 OR push_bit (5 * 8) cc5
       OR push_bit (6 * 8) cc6 OR push_bit (7 * 8) cc7"

definition LCD_CC_TILDE_BITMAP :: "64 word" where
  "LCD_CC_TILDE_BITMAP = CUSTOM_CHAR 0x00 0x08 0x15 0x02 0x00 0x00 0x00 0x00"

definition LCD_CC_BACKSLASH_BITMAP :: "64 word" where
  "LCD_CC_BACKSLASH_BITMAP = CUSTOM_CHAR 0x00 0x10 0x08 0x04 0x02 0x01 0x00 0x00"

text \<open>\<^verbatim>\<open>lcd_init\<close>, up to the redirection of \<^verbatim>\<open>stdout\<close>, which is outside the model.\<close>

definition lcd_init :: "lcd_state \<Rightarrow> lcd_state" where
  "lcd_init s =
     (let s = port_clear RW_PIN s;
          s = ddr_set RW_PIN s;
          s = port_clear RS_PIN s;
          s = ddr_set RS_PIN s;
          s = en_low s;
          s = ddr_set EN_PIN s;
          s = port_clear DB4_PIN s;
          s = ddr_set DB4_PIN s;
          s = port_clear DB5_PIN s;
          s = ddr_set DB5_PIN s;
          s = port_clear DB6_PIN s;
          s = ddr_set DB6_PIN s;
          s = port_clear DB7_PIN s;
          s = ddr_set DB7_PIN s;
          s = delayMs 15 s;
          s = sendNibble 0 0b0011 s;
          s = delayMs 5 s;
          s = sendNibble 0 0b0011 s;
          s = delay_us 100 s;
          s = sendNibble 0 0b0011 s;
          s = delay_us 100 s;
          s = sendNibble 0 0b0010 s;
          s = delay_us 42 s;
          s = SEND_BYTE 0 0b00101000 42 s;
          s = SEND_BYTE 0 0b00001000 42 s;
          s = lcd_clear s;
          s = SEND_BYTE 0 0b00000110 42 s;
          s = SEND_BYTE 0 0b00001100 42 s;
          s = lcd_registerCustomChar LCD_CC_TILDE LCD_CC_TILDE_BITMAP s;
          s = lcd_registerCustomChar LCD_CC_BACKSLASH LCD_CC_BACKSLASH_BITMAP s
      in s)"

subsection \<open>Transfers as the display sees them\<close>

text \<open>One nibble transfer of \<^verbatim>\<open>sendNibble\<close> is a set-up delay, the enable pulse with its
  width, and the hold delay. One byte transfer of \<^verbatim>\<open>SEND_BYTE\<close> is the upper nibble, the
  lower nibble and the fixed delay of the call site.\<close>

definition nibble_transfer :: "bool \<Rightarrow> 8 word \<Rightarrow> bus_event list" where
  "nibble_transfer rs n = [DelayUs 1, DelayUs 1, Pulse rs n, DelayUs 1]"

definition byte_transfer :: "bool \<Rightarrow> 8 word \<Rightarrow> nat \<Rightarrow> bus_event list" where
  "byte_transfer rs c d =
     nibble_transfer rs (drop_bit 4 c) @ nibble_transfer rs (c AND 0x0f) @ [DelayUs d]"

text \<open>The DDRAM address of a cursor position, as the specification gives it: positions
  0 to 15 are their own address, positions 16 to 31 are \<open>0x40 | (position & 0x0F)\<close>, and the
  sentinel has address 0.\<close>

definition ddram_address :: "8 word \<Rightarrow> 8 word" where
  "ddram_address position =
     (if position < 16 then position
      else if position < 32 then 0x40 OR (position AND 0x0f)
      else 0)"

text \<open>The eight rows of a glyph bitmap, lowest byte first, each written to the data
  register with the delay of a data write.\<close>

definition bitmap_transfer :: "64 word \<Rightarrow> bus_event list" where
  "bitmap_transfer chr =
     concat (map (\<lambda>i. byte_transfer True (ucast (drop_bit (8 * i) chr)) 46) [0..<8])"

text \<open>What writing one glyph puts on the bus, by the cursor position before the write:
  the clear command at the sentinel, the jump to line 2 at position 16, and then the glyph
  byte to the data register.\<close>

definition glyph_transfer :: "8 word \<Rightarrow> 8 word \<Rightarrow> bus_event list" where
  "glyph_transfer cursor code =
     (if cursor = 32 then byte_transfer False 0x01 1640
      else if cursor = 16 then byte_transfer False 0xC0 42
      else [])
     @ byte_transfer True code 46"

text \<open>The state \<open>t\<close> is the state \<open>s\<close> after the dispatch of the code point \<open>cp\<close>: a line feed
  moves the cursor to line 2 or to the sentinel and writes no glyph, any other code point
  writes its glyph and advances the cursor; the accumulator is empty afterwards.\<close>

definition dispatched :: "32 word \<Rightarrow> lcd_state \<Rightarrow> lcd_state \<Rightarrow> bool" where
  "dispatched cp s t \<longleftrightarrow>
     bus t = bus s @
       (if cp = 0x0a
        then byte_transfer False (0x80 OR ddram_address (if lcdCursor s < 16 then 16 else 32)) 42
        else (if lcdCursor s = 32 then byte_transfer False 0x01 1640
              else if lcdCursor s = 16 then byte_transfer False 0xC0 42
              else [])
             @ byte_transfer True (lcdCode cp) 46) \<and>
     lcdCursor t =
       (if cp = 0x0a then (if lcdCursor s < 16 then 16 else 32)
        else (if lcdCursor s = 32 then 0 else lcdCursor s) + 1) \<and>
     utf8Buffer t = 0"

subsection \<open>Reference UTF-8 encoder\<close>

text \<open>The encoder of the round-trip property, with the bit layout of RFC 3629: one byte
  below U+0080, two below U+0800, three below U+10000 and four from there on. Surrogate
  code points are encoded like their neighbours.\<close>

definition utf8_encode :: "32 word \<Rightarrow> 8 word list" where
  "utf8_encode cp =
     (if cp < 0x80 then [ucast cp]
      else if cp < 0x800 then
        [0xC0 OR ucast (drop_bit 6 cp), 0x80 OR (ucast cp AND 0x3f)]
      else if cp < 0x10000 then
        [0xE0 OR ucast (drop_bit 12 cp), 0x80 OR (ucast (drop_bit 6 cp) AND 0x3f),
         0x80 OR (ucast cp AND 0x3f)]
      else
        [0xF0 OR ucast (drop_bit 18 cp), 0x80 OR (ucast (drop_bit 12 cp) AND 0x3f),
         0x80 OR (ucast (drop_bit 6 cp) AND 0x3f), 0x80 OR (ucast cp AND 0x3f)])"

subsection \<open>Bytes that begin a sequence\<close>

text \<open>The leading bytes of the 2-, 3- and 4-byte shapes: \<open>110xxxxx\<close>, \<open>1110xxxx\<close> and
  \<open>11110xxx\<close>.\<close>

definition begins_sequence :: "8 word \<Rightarrow> bool" where
  "begins_sequence b \<longleftrightarrow> b AND 0xE0 = 0xC0 \<or> b AND 0xF0 = 0xE0 \<or> b AND 0xF8 = 0xF0"

text \<open>An accumulator from which no further byte can lead to a dispatch, as long as the
  bytes that follow are not 0 and begin no sequence: its lowest byte is not 0, and none of
  its three lower bytes begins a sequence.\<close>

definition stalled :: "32 word \<Rightarrow> bool" where
  "stalled buf \<longleftrightarrow>
     (ucast buf :: 8 word) \<noteq> 0 \<and>
     \<not> begins_sequence (ucast buf) \<and>
     \<not> begins_sequence (ucast (drop_bit 8 buf)) \<and>
     \<not> begins_sequence (ucast (drop_bit 16 buf))"

section \<open>Properties\<close>

subsection \<open>Bits of a byte\<close>

lemma all_less_8: "(\<forall>n<8. P (n::nat)) \<longleftrightarrow> P 0 \<and> P 1 \<and> P 2 \<and> P 3 \<and> P 4 \<and> P 5 \<and> P 6 \<and> P 7"
proof -
  have "(\<forall>n<8. P n) \<longleftrightarrow> (\<forall>n < Suc (Suc (Suc (Suc (Suc (Suc (Suc (Suc 0))))))). P n)"
    by (simp add: eval_nat_numeral)
  also have "\<dots> \<longleftrightarrow> P 0 \<and> P 1 \<and> P 2 \<and> P 3 \<and> P 4 \<and> P 5 \<and> P 6 \<and> P 7"
    unfolding All_less_Suc by (auto simp: eval_nat_numeral)
  finally show ?thesis .
qed

lemma word8_eq_iff: "(a :: 8 word) = b \<longleftrightarrow> (\<forall>n<8. bit a n = bit b n)"
  by (auto intro: bit_word_eqI)

lemmas word8_bits = word8_eq_iff [unfolded all_less_8]

subsection \<open>Bus and frame of the transmitters\<close>

lemmas pins = RS_PIN_def EN_PIN_def RW_PIN_def DB4_PIN_def DB5_PIN_def DB6_PIN_def DB7_PIN_def

lemma sendNibble_bus:
  assumes "regSel = 0 \<or> regSel = 1"
  shows "bus (sendNibble regSel nibble s) = bus s @ nibble_transfer (regSel = 1) (nibble AND 0x0f)"
  using assms
  by (elim disjE; simp add: sendNibble_def Let_def port_put_def en_high_def en_low_def
        port_set_def port_clear_def delay_us_def pins nibble_transfer_def
        word8_bits bit_simps even_and_iff even_or_iff del: push_bit_Suc)

lemma sendNibble_EN_low: "\<not> bit (PORTA (sendNibble regSel nibble s)) EN_PIN"
  by (simp add: sendNibble_def Let_def port_put_def en_high_def en_low_def port_set_def
        port_clear_def delay_us_def pins bit_simps)

lemma sendNibble_lcdCursor [simp]: "lcdCursor (sendNibble regSel nibble s) = lcdCursor s"
  by (simp add: sendNibble_def Let_def port_put_def en_high_def en_low_def port_set_def
        port_clear_def delay_us_def)

lemma sendNibble_utf8Buffer [simp]: "utf8Buffer (sendNibble regSel nibble s) = utf8Buffer s"
  by (simp add: sendNibble_def Let_def port_put_def en_high_def en_low_def port_set_def
        port_clear_def delay_us_def)

lemma high_nibble: "drop_bit 4 (c :: 8 word) AND 0x0f = drop_bit 4 c"
  by (auto simp add: word8_bits bit_simps even_and_iff even_drop_bit_iff_not_bit
        dest: bit_imp_le_length)

lemma low_nibble: "((c :: 8 word) AND 0x0f) AND 0x0f = c AND 0x0f"
  by (simp add: word8_bits bit_simps even_and_iff)

lemma SEND_BYTE_bus:
  assumes "regSel = 0 \<or> regSel = 1"
  shows "bus (SEND_BYTE regSel c d s) = bus s @ byte_transfer (regSel = 1) c d"
  using assms
  by (simp add: SEND_BYTE_def sendByte_def delay_us_def sendNibble_bus byte_transfer_def
        high_nibble low_nibble)

lemma SEND_BYTE_lcdCursor [simp]: "lcdCursor (SEND_BYTE regSel c d s) = lcdCursor s"
  by (simp add: SEND_BYTE_def sendByte_def delay_us_def)

lemma SEND_BYTE_utf8Buffer [simp]: "utf8Buffer (SEND_BYTE regSel c d s) = utf8Buffer s"
  by (simp add: SEND_BYTE_def sendByte_def delay_us_def)

lemma updateCursor_bus:
  "bus (updateCursor s) = bus s @ byte_transfer False (0x80 OR ddram_address (lcdCursor s)) 42"
  by (simp add: updateCursor_def Let_def SEND_BYTE_bus ddram_address_def)

lemma updateCursor_lcdCursor [simp]: "lcdCursor (updateCursor s) = lcdCursor s"
  by (simp add: updateCursor_def Let_def)

lemma updateCursor_utf8Buffer [simp]: "utf8Buffer (updateCursor s) = utf8Buffer s"
  by (simp add: updateCursor_def Let_def)

lemma lcd_clear_bus: "bus (lcd_clear s) = bus s @ byte_transfer False 0x01 1640"
  by (simp add: lcd_clear_def SEND_BYTE_bus)

lemma lcd_clear_lcdCursor [simp]: "lcdCursor (lcd_clear s) = 0"
  by (simp add: lcd_clear_def)

lemma lcd_clear_utf8Buffer [simp]: "utf8Buffer (lcd_clear s) = utf8Buffer s"
  by (simp add: lcd_clear_def)

lemma registerCustomChar_loop_lcdCursor [simp]:
  "lcdCursor (registerCustomChar_loop k chr s) = lcdCursor s"
  by (induction k arbitrary: chr s) simp_all

lemma registerCustomChar_loop_utf8Buffer [simp]:
  "utf8Buffer (registerCustomChar_loop k chr s) = utf8Buffer s"
  by (induction k arbitrary: chr s) simp_all

lemma registerCustomChar_loop_bus:
  "bus (registerCustomChar_loop k chr s) =
     bus s @ concat (map (\<lambda>i. byte_transfer True (ucast (drop_bit (8 * i) chr)) 46) [0..<k])"
proof (induction k arbitrary: chr s)
  case 0
  show ?case by simp
next
  case (Suc k)
  have "[0..<Suc k] = 0 # map Suc [0..<k]"
    by (simp add: upt_conv_Cons map_Suc_upt del: upt_Suc)
  then show ?case
    using Suc.IH [of "drop_bit 8 chr" "SEND_BYTE 1 (ucast chr) 46 s"]
    by (simp add: SEND_BYTE_bus comp_def drop_bit_drop_bit add.commute del: upt_Suc)
qed

lemma port_clear_bus [simp]: "bus (port_clear pin s) = bus s"
  by (simp add: port_clear_def)

lemma ddr_set_bus [simp]: "bus (ddr_set pin s) = bus s"
  by (simp add: ddr_set_def)

lemma ddr_set_PORTA [simp]: "PORTA (ddr_set pin s) = PORTA s"
  by (simp add: ddr_set_def)

lemma en_low_idle_bus: "\<not> bit (PORTA s) EN_PIN \<Longrightarrow> bus (en_low s) = bus s"
  by (simp add: en_low_def)

lemma init_pins_EN:
  "bit (PORTA (ddr_set RS_PIN (port_clear RS_PIN (ddr_set RW_PIN (port_clear RW_PIN s))))) EN_PIN
     = bit (PORTA s) EN_PIN"
  by (simp add: port_clear_def pins bit_simps)

lemma lcd_line2_bus: "bus (lcd_line2 s) = bus s @ byte_transfer False 0xC0 42"
  by (simp add: lcd_line2_def updateCursor_bus ddram_address_def)

lemma lcd_line2_lcdCursor [simp]: "lcdCursor (lcd_line2 s) = 16"
  by (simp add: lcd_line2_def)

lemma lcd_line2_utf8Buffer [simp]: "utf8Buffer (lcd_line2 s) = utf8Buffer s"
  by (simp add: lcd_line2_def)

lemma lcd_writeChar_newline:
  assumes "utf8_decode (push_bit 8 (utf8Buffer s) OR ucast c) = Some 0x0a"
  shows "lcd_writeChar c s =
           updateCursor (s\<lparr>utf8Buffer := 0, lcdCursor := (if lcdCursor s < 16 then 16 else 32)\<rparr>)"
  using assms by (simp add: lcd_writeChar_def Let_def)

lemma lcd_writeChar_glyph_lcdCursor:
  assumes "utf8_decode (push_bit 8 (utf8Buffer s) OR ucast c) = Some cp" "cp \<noteq> 0x0a"
  shows "lcdCursor (lcd_writeChar c s) = (if lcdCursor s = 32 then 0 else lcdCursor s) + 1"
  using assms by (simp add: lcd_writeChar_def Let_def)

lemma lcd_writeChar_glyph_bus:
  assumes "utf8_decode (push_bit 8 (utf8Buffer s) OR ucast c) = Some cp" "cp \<noteq> 0x0a"
  shows "bus (lcd_writeChar c s) =
           bus s @ (if lcdCursor s = 32 then byte_transfer False 0x01 1640
                    else if lcdCursor s = 16 then byte_transfer False 0xC0 42 else [])
                 @ byte_transfer True (lcdCode cp) 46"
  using assms by (simp add: lcd_writeChar_def Let_def SEND_BYTE_bus lcd_clear_bus lcd_line2_bus)

lemma lcd_writeChar_dispatch_utf8Buffer:
  assumes "utf8_decode (push_bit 8 (utf8Buffer s) OR ucast c) = Some cp"
  shows "utf8Buffer (lcd_writeChar c s) = 0"
  using assms by (simp add: lcd_writeChar_def Let_def)

lemma lcd_writeChar_incomplete:
  assumes "utf8_decode (push_bit 8 (utf8Buffer s) OR ucast c) = None"
  shows "lcd_writeChar c s = s\<lparr>utf8Buffer := push_bit 8 (utf8Buffer s) OR ucast c\<rparr>"
  using assms by (simp add: lcd_writeChar_def Let_def)

lemma lcd_writeChar_dispatch_bus:
  assumes "utf8_decode (push_bit 8 (utf8Buffer s) OR ucast c) = Some cp"
  shows "bus (lcd_writeChar c s) =
     bus s @
       (if cp = 0x0a
        then byte_transfer False (0x80 OR ddram_address (if lcdCursor s < 16 then 16 else 32)) 42
        else (if lcdCursor s = 32 then byte_transfer False 0x01 1640
              else if lcdCursor s = 16 then byte_transfer False 0xC0 42
              else [])
             @ byte_transfer True (lcdCode cp) 46)"
proof (cases "cp = 0x0a")
  case True
  with assms show ?thesis
    by (simp add: lcd_writeChar_newline updateCursor_bus)
next
  case False
  with assms show ?thesis
    by (simp add: lcd_writeChar_glyph_bus)
qed

lemma lcd_writeChar_dispatch_lcdCursor:
  assumes "utf8_decode (push_bit 8 (utf8Buffer s) OR ucast c) = Some cp"
  shows "lcdCursor (lcd_writeChar c s) =
     (if cp = 0x0a then (if lcdCursor s < 16 then 16 else 32)
      else (if lcdCursor s = 32 then 0 else lcdCursor s) + 1)"
proof (cases "cp = 0x0a")
  case True
  with assms show ?thesis
    by (simp add: lcd_writeChar_newline)
next
  case False
  with assms show ?thesis
    by (simp add: lcd_writeChar_glyph_lcdCursor)
qed

lemma lcd_registerCustomChar_bus:
  "bus (lcd_registerCustomChar addr chr s) =
     bus s @ byte_transfer False (ucast (0x40 OR (8 * (ucast addr :: 16 word)))) 42
           @ bitmap_transfer chr
           @ byte_transfer False (0x80 OR ddram_address (lcdCursor s)) 42"
  by (simp add: lcd_registerCustomChar_def Let_def updateCursor_bus registerCustomChar_loop_bus
        SEND_BYTE_bus bitmap_transfer_def)

lemma lcd_registerCustomChar_lcdCursor [simp]:
  "lcdCursor (lcd_registerCustomChar addr chr s) = lcdCursor s"
  by (simp add: lcd_registerCustomChar_def Let_def)

subsection \<open>Cursor movement\<close>

lemma word8_less_16_cases:
  assumes "(d :: 8 word) < 16"
  shows "d = 0 \<or> d = 1 \<or> d = 2 \<or> d = 3 \<or> d = 4 \<or> d = 5 \<or> d = 6 \<or> d = 7 \<or>
         d = 8 \<or> d = 9 \<or> d = 10 \<or> d = 11 \<or> d = 12 \<or> d = 13 \<or> d = 14 \<or> d = 15"
proof -
  have "unat d < 16"
    using assms by (simp add: word_less_nat_alt)
  then have "unat d = 0 \<or> unat d = 1 \<or> unat d = 2 \<or> unat d = 3 \<or> unat d = 4 \<or> unat d = 5 \<or>
      unat d = 6 \<or> unat d = 7 \<or> unat d = 8 \<or> unat d = 9 \<or> unat d = 10 \<or> unat d = 11 \<or>
      unat d = 12 \<or> unat d = 13 \<or> unat d = 14 \<or> unat d = 15"
    by arith
  then show ?thesis
    by (simp add: word_unat_eq_iff)
qed

lemma goto_clamp_row:
  "(if (if row0 < 1 then 1 else row0) > 2 then 2 else (if row0 < 1 then 1 else row0))
     = max 1 (min 2 (row0 :: 8 word))"
  by (simp add: max_def min_def word_le_nat_alt word_less_nat_alt word_unat_eq_iff)

lemma goto_clamp_column:
  "(if (if column0 < 1 then 1 else column0) > 16 then 16 else (if column0 < 1 then 1 else column0))
     = max 1 (min 16 (column0 :: 8 word))"
  by (simp add: max_def min_def word_le_nat_alt word_less_nat_alt word_unat_eq_iff)

lemma unat_clamp: "a \<le> b \<Longrightarrow> unat (max a (min b (w :: 8 word))) = max (unat a) (min (unat b) (unat w))"
  by (auto simp: max_def min_def word_le_nat_alt)

lemma clamp_row_cases: "max 1 (min 2 (row :: 8 word)) = 1 \<or> max 1 (min 2 row) = 2"
proof -
  have "max 1 (min 2 (unat row)) = 1 \<or> max 1 (min 2 (unat row)) = 2"
    by arith
  then have "unat (max 1 (min 2 row)) = 1 \<or> unat (max 1 (min 2 row)) = 2"
    by (simp add: unat_clamp)
  then show ?thesis
    by (simp add: word_unat_eq_iff)
qed

lemma clamp_column_less: "max 1 (min 16 (column :: 8 word)) - 1 < 16"
proof -
  let ?c = "max 1 (min 16 column)"
  have u: "unat ?c = max 1 (min 16 (unat column))"
    by (simp add: unat_clamp)
  have "1 \<le> ?c" by simp
  then have "unat (?c - 1) = unat ?c - 1"
    by (simp add: unat_sub)
  moreover have "max 1 (min 16 (unat column)) - 1 < 16"
    by arith
  ultimately show ?thesis
    using u by (simp add: word_less_nat_alt)
qed

lemma goto_position:
  assumes "r = 1 \<or> r = 2" "d < 16"
  shows "unat (push_bit 4 (r - 1) OR d :: 8 word) = (unat r - 1) * 16 + unat d"
  using assms(1) word8_less_16_cases [OF assms(2)]
  by (elim disjE; simp)

lemma lcd_goto_lcdCursor:
  "unat (lcdCursor (lcd_goto row column s))
     = (max 1 (min 2 (unat row)) - 1) * 16 + (max 1 (min 16 (unat column)) - 1)"
proof -
  let ?r = "max 1 (min 2 row)" and ?c = "max 1 (min 16 column)"
  have eq: "lcd_goto row column s = updateCursor (s\<lparr>lcdCursor := push_bit 4 (?r - 1) OR (?c - 1)\<rparr>)"
    by (simp only: lcd_goto_def Let_def goto_clamp_row goto_clamp_column)
  have "1 \<le> ?c" by simp
  then have c1: "unat (?c - 1) = unat ?c - 1"
    by (simp add: unat_sub)
  have "unat (lcdCursor (lcd_goto row column s)) = (unat ?r - 1) * 16 + unat (?c - 1)"
    unfolding eq using goto_position [OF clamp_row_cases clamp_column_less, of row column]
    by simp
  then show ?thesis
    by (simp add: c1 unat_clamp)
qed

text \<open>
  C9. For every row and column argument, \<^verbatim>\<open>lcd_goto\<close> behaves as on the row clamped to
  [1,2] and the column clamped to [1,16]; it always returns, and the cursor position it
  sets is (row - 1) * 16 + (column - 1) of the clamped values. In particular
  \<^verbatim>\<open>lcd_goto(3, 20)\<close> does what \<^verbatim>\<open>lcd_goto(2, 16)\<close> does.
\<close>

theorem lcd_goto_clamps:
  "lcd_goto row column s = lcd_goto (max 1 (min 2 row)) (max 1 (min 16 column)) s \<and>
   unat (lcdCursor (lcd_goto row column s))
     = (max 1 (min 2 (unat row)) - 1) * 16 + (max 1 (min 16 (unat column)) - 1) \<and>
   lcd_goto 3 20 s = lcd_goto 2 16 s"
proof -
  let ?r = "max 1 (min 2 row)" and ?c = "max 1 (min 16 column)"
  have eq: "lcd_goto row column s = updateCursor (s\<lparr>lcdCursor := push_bit 4 (?r - 1) OR (?c - 1)\<rparr>)"
    by (simp only: lcd_goto_def Let_def goto_clamp_row goto_clamp_column)
  have idem: "max 1 (min 2 ?r) = ?r" "max 1 (min 16 ?c) = ?c"
    by (simp_all add: max_def min_def word_le_nat_alt word_less_nat_alt word_unat_eq_iff)
  have first: "lcd_goto row column s = lcd_goto ?r ?c s"
    unfolding eq by (simp only: lcd_goto_def Let_def goto_clamp_row goto_clamp_column idem)
  have third: "lcd_goto 3 20 s = lcd_goto 2 16 s"
    by (simp add: lcd_goto_def Let_def)
  show ?thesis
    using first lcd_goto_lcdCursor [of row column s] third by blast
qed

text \<open>What \<^verbatim>\<open>lcd_move\<close> computes, for every cursor value and every pair of arguments; the
  result is the same whether \<^verbatim>\<open>char\<close> is signed or unsigned.\<close>

lemma int_and_1: "(k :: int) AND 1 = k mod 2"
  by (simp add: and_one_eq)

lemma int_and_15: "(k :: int) AND 0x0f = k mod 16"
proof -
  have "(0x0f :: int) = mask 4"
    by (simp add: mask_eq_exp_minus_1)
  then have "k AND 0x0f = take_bit 4 k"
    by (simp only: take_bit_eq_mask)
  then show ?thesis
    by (simp add: take_bit_eq_mod)
qed

lemma char_signedness:
  "(a + (sint (r :: 8 word) + 1)) AND 1 = (a + (uint r + 1)) AND 1"
  "(a + (sint (r :: 8 word) + 15)) AND 0x0f = (a + (uint r + 15)) AND 0x0f"
proof -
  have u: "uint r = sint r mod 256"
    by (simp add: uint_sint take_bit_eq_mod)
  have "sint r mod 256 mod 2 = sint r mod 2"
    by (rule mod_mod_cancel) simp
  then have "(a + (sint r mod 256 + 1)) mod 2 = (a + (sint r + 1)) mod 2"
    by (metis mod_add_cong mod_add_left_eq)
  then show "(a + (sint r + 1)) AND 1 = (a + (uint r + 1)) AND 1"
    by (simp only: int_and_1 u)
  have "sint r mod 256 mod 16 = sint r mod 16"
    by (rule mod_mod_cancel) simp
  then have "(a + (sint r mod 256 + 15)) mod 16 = (a + (sint r + 15)) mod 16"
    by (metis mod_add_cong mod_add_left_eq)
  then show "(a + (sint r + 15)) AND 0x0f = (a + (uint r + 15)) AND 0x0f"
    by (simp only: int_and_15 u)
qed

lemma move_position:
  assumes "0 \<le> a" "a < 2" "0 \<le> b" "b < 16"
  shows "uint (push_bit 4 (word_of_int a :: 8 word) OR word_of_int b) = a * 16 + b"
proof -
  have a: "a = 0 \<or> a = 1"
    using assms(1,2) by arith
  have b: "b = 0 \<or> b = 1 \<or> b = 2 \<or> b = 3 \<or> b = 4 \<or> b = 5 \<or> b = 6 \<or> b = 7 \<or>
      b = 8 \<or> b = 9 \<or> b = 10 \<or> b = 11 \<or> b = 12 \<or> b = 13 \<or> b = 14 \<or> b = 15"
    using assms(3,4) by arith
  from a b show ?thesis
    by (elim disjE; simp)
qed

lemma lcd_move_computes:
  "uint (lcdCursor (lcd_move row column s)) =
     ((uint (lcdCursor s) div 16 + sint row + 1) mod 2) * 16
       + (uint (lcdCursor s) + sint column + 15) mod 16"
proof -
  have d: "uint (drop_bit 4 (lcdCursor s)) = uint (lcdCursor s) div 16"
    by (simp add: drop_bit_eq_div uint_div)
  let ?a = "(uint (lcdCursor s) div 16 + sint row + 1) mod 2"
  let ?b = "(uint (lcdCursor s) + sint column + 15) mod 16"
  have "lcdCursor (lcd_move row column s) = push_bit 4 (word_of_int ?a) OR word_of_int ?b"
    by (simp add: lcd_move_def Let_def int_and_1 int_and_15 d add.assoc)
  moreover have "uint (push_bit 4 (word_of_int ?a :: 8 word) OR word_of_int ?b) = ?a * 16 + ?b"
    by (rule move_position) simp_all
  ultimately show ?thesis
    by simp
qed

text \<open>
  C2. \<^verbatim>\<open>lcd_move\<close> adds \<open>row + 1\<close> to the row and \<open>column + 15\<close> to the column. The header
  promises that \<^verbatim>\<open>column = 5\<close> in the 13th position leads to the 2nd position of the same row;
  the code leads to the 1st position of the other row. A move by (0, 0) from position 0
  ends at position 31, and two moves by (1, 0) from column 6 end in column 4.
\<close>

theorem lcd_move_off_by_one:
  "lcdCursor (lcd_move 0 5 (s\<lparr>lcdCursor := 12\<rparr>)) = 16 \<and>
   lcdCursor (lcd_move 0 0 (s\<lparr>lcdCursor := 0\<rparr>)) = 31 \<and>
   lcdCursor (lcd_move 1 0 (lcd_move 1 0 (s\<lparr>lcdCursor := 5\<rparr>))) = 3"
  by (simp add: lcd_move_def Let_def)

subsection \<open>The cursor range\<close>

lemma utf8_decode_newline: "utf8_decode 0x0a = Some 0x0a"
  by (simp add: utf8_decode_def)

text \<open>Every operation other than \<^verbatim>\<open>lcd_forward\<close> keeps the cursor in the range 0..32, and
  \<^verbatim>\<open>lcd_forward\<close> keeps it there from every position below the sentinel.\<close>

lemma le_32_iff: "(w :: 8 word) \<le> 32 \<longleftrightarrow> unat w \<le> 32"
  by (simp add: word_le_nat_alt)

lemma cursor_range_line1: "lcdCursor (lcd_line1 s) \<le> 32"
  by (simp add: lcd_line1_def)

lemma cursor_range_line2: "lcdCursor (lcd_line2 s) \<le> 32"
  by simp

lemma cursor_range_goto: "lcdCursor (lcd_goto row column s) \<le> 32"
proof -
  have "max 1 (min 2 (unat row)) - 1 \<le> 1" "max 1 (min 16 (unat column)) - 1 \<le> 15"
    by arith+
  then have "(max 1 (min 2 (unat row)) - 1) * 16 + (max 1 (min 16 (unat column)) - 1) \<le> 32"
    by linarith
  then show ?thesis
    by (simp only: le_32_iff lcd_goto_lcdCursor)
qed

lemma cursor_range_move: "lcdCursor (lcd_move row column s) \<le> 32"
proof -
  let ?a = "(uint (lcdCursor s) div 16 + sint row + 1) mod 2"
  let ?b = "(uint (lcdCursor s) + sint column + 15) mod 16"
  have "?a \<le> 1" "?b \<le> 15"
    by simp_all
  then have "?a * 16 + ?b \<le> 32"
    by linarith
  then have "uint (lcdCursor (lcd_move row column s)) \<le> 32"
    by (simp only: lcd_move_computes)
  then show ?thesis
    by (simp add: word_le_def)
qed

lemma cursor_range_back:
  assumes "lcdCursor s \<le> 32"
  shows "lcdCursor (lcd_back s) \<le> 32"
proof (cases "lcdCursor s = 0")
  case True
  then show ?thesis by (simp add: lcd_back_def)
next
  case False
  then have "unat (lcdCursor s - 1) = unat (lcdCursor s) - 1"
    by (simp add: unat_minus_one)
  then show ?thesis
    using assms False by (simp add: lcd_back_def le_32_iff)
qed

lemma cursor_range_home: "lcdCursor (lcd_home s) \<le> 32"
proof -
  have "lcdCursor s AND 0x10 \<le> 0x10"
    by (rule word_and_le1)
  then show ?thesis
    by (simp add: lcd_home_def le_32_iff word_le_nat_alt)
qed

lemma cursor_range_clear: "lcdCursor (lcd_clear s) \<le> 32"
  by simp

lemma lcd_erase_lcdCursor: "lcdCursor (lcd_erase line s) = lcdCursor s"
  by (simp add: lcd_erase_def Let_def)

lemma cursor_range_writeChar:
  assumes "lcdCursor s \<le> 32"
  shows "lcdCursor (lcd_writeChar c s) \<le> 32"
proof (cases "utf8_decode (push_bit 8 (utf8Buffer s) OR ucast c)")
  case None
  then show ?thesis
    using assms by (simp add: lcd_writeChar_incomplete)
next
  case (Some cp)
  show ?thesis
  proof (cases "lcdCursor s = 32")
    case True
    then show ?thesis
      by (simp add: lcd_writeChar_dispatch_lcdCursor [OF Some])
  next
    case False
    then have "unat (lcdCursor s) < 32"
      using assms by (simp add: le_32_iff word_unat_eq_iff)
    then have "unat (lcdCursor s + 1) \<le> 32"
      by (simp add: unat_word_ariths)
    then show ?thesis
      using False by (simp add: lcd_writeChar_dispatch_lcdCursor [OF Some] le_32_iff)
  qed
qed

lemma cursor_range_forward:
  assumes "lcdCursor s < 32"
  shows "lcdCursor (lcd_forward s) \<le> 32"
proof -
  have "unat (lcdCursor s) < 32"
    using assms by (simp add: word_less_nat_alt)
  then have "unat (lcdCursor s + 1) \<le> 32"
    by (simp add: unat_word_ariths)
  then show ?thesis
    by (simp add: lcd_forward_def le_32_iff)
qed

text \<open>
  C1. Two line feeds after power-on leave the cursor at the sentinel 32;
  \<^verbatim>\<open>lcd_forward\<close> then tests for 31 only and increments the sentinel to 33, outside of
  the documented range of \<^verbatim>\<open>lcdCursor\<close>.
\<close>

theorem lcd_forward_leaves_range:
  "lcdCursor (lcd_writeChar 0x0a (lcd_writeChar 0x0a lcd_power_on)) = 32 \<and>
   lcdCursor (lcd_forward (lcd_writeChar 0x0a (lcd_writeChar 0x0a lcd_power_on))) = 33"
  by (simp add: lcd_forward_def lcd_writeChar_def Let_def lcd_power_on_def utf8_decode_newline)

subsection \<open>Page break and line break\<close>

text \<open>
  C5. With the cursor at position 31, a byte \<open>c1\<close> that completes a code point leaves the
  cursor at the sentinel 32. The next byte \<open>c2\<close> that is a character other than line feed
  first sends the "Clear display" command, which resets the cursor to 0, then its glyph,
  and leaves the cursor at 1. With the cursor at exactly 16, such a byte first sends the
  jump to line 2 ("Set DDRAM address" \<open>0x40\<close>), then its glyph.
\<close>

theorem lcd_writeChar_page_break:
  assumes "utf8_decode (push_bit 8 (utf8Buffer s) OR ucast c1) = Some cp1"
    and "utf8_decode (ucast c2) = Some cp2" and "cp2 \<noteq> 0x0a"
  shows "lcdCursor (lcd_writeChar c1 (s\<lparr>lcdCursor := 31\<rparr>)) = 32 \<and>
         bus (lcd_writeChar c2 (lcd_writeChar c1 (s\<lparr>lcdCursor := 31\<rparr>))) =
           bus (lcd_writeChar c1 (s\<lparr>lcdCursor := 31\<rparr>))
             @ byte_transfer False 0x01 1640 @ byte_transfer True (lcdCode cp2) 46 \<and>
         lcdCursor (lcd_clear (lcd_writeChar c1 (s\<lparr>lcdCursor := 31\<rparr>))) = 0 \<and>
         lcdCursor (lcd_writeChar c2 (lcd_writeChar c1 (s\<lparr>lcdCursor := 31\<rparr>))) = 1 \<and>
         bus (lcd_writeChar c2 (s\<lparr>lcdCursor := 16, utf8Buffer := 0\<rparr>)) =
           bus s @ byte_transfer False 0xC0 42 @ byte_transfer True (lcdCode cp2) 46 \<and>
         lcdCursor (lcd_writeChar c2 (s\<lparr>lcdCursor := 16, utf8Buffer := 0\<rparr>)) = 17"
proof -
  let ?s1 = "lcd_writeChar c1 (s\<lparr>lcdCursor := 31\<rparr>)"
  have first: "lcdCursor ?s1 = 32"
  proof (cases "cp1 = 0x0a")
    case True
    with assms(1) show ?thesis
      by (simp add: lcd_writeChar_newline)
  next
    case False
    with assms(1) show ?thesis
      by (simp add: lcd_writeChar_glyph_lcdCursor)
  qed
  have buf: "utf8Buffer ?s1 = 0"
    using assms(1) by (simp add: lcd_writeChar_dispatch_utf8Buffer)
  have d2: "utf8_decode (push_bit 8 (utf8Buffer ?s1) OR ucast c2) = Some cp2"
    using assms(2) buf by simp
  have second: "bus (lcd_writeChar c2 ?s1) =
      bus ?s1 @ byte_transfer False 0x01 1640 @ byte_transfer True (lcdCode cp2) 46"
    using lcd_writeChar_glyph_bus [OF d2 assms(3)] first by simp
  have third: "lcdCursor (lcd_writeChar c2 ?s1) = 1"
    using lcd_writeChar_glyph_lcdCursor [OF d2 assms(3)] first by simp
  let ?s16 = "s\<lparr>lcdCursor := 16, utf8Buffer := 0\<rparr>"
  have d16: "utf8_decode (push_bit 8 (utf8Buffer ?s16) OR ucast c2) = Some cp2"
    using assms(2) by simp
  have fourth: "bus (lcd_writeChar c2 ?s16) =
      bus s @ byte_transfer False 0xC0 42 @ byte_transfer True (lcdCode cp2) 46"
    using lcd_writeChar_glyph_bus [OF d16 assms(3)] by simp
  have fifth: "lcdCursor (lcd_writeChar c2 ?s16) = 17"
    using lcd_writeChar_glyph_lcdCursor [OF d16 assms(3)] by simp
  show ?thesis
    using first second third fourth fifth by simp
qed

lemma utf8_decode_A: "utf8_decode 0x41 = Some 0x41" "utf8_decode 0x42 = Some 0x42"
  by (simp_all add: utf8_decode_def)

theorem lcd_writeChar_page_break_witness:
  "lcdCursor (lcd_writeChar 0x41 (lcd_power_on\<lparr>lcdCursor := 31\<rparr>)) = 32 \<and>
   bus (lcd_writeChar 0x42 (lcd_writeChar 0x41 (lcd_power_on\<lparr>lcdCursor := 31\<rparr>))) =
     bus (lcd_writeChar 0x41 (lcd_power_on\<lparr>lcdCursor := 31\<rparr>))
       @ byte_transfer False 0x01 1640 @ byte_transfer True 0x42 46 \<and>
   lcdCursor (lcd_writeChar 0x42 (lcd_writeChar 0x41 (lcd_power_on\<lparr>lcdCursor := 31\<rparr>))) = 1 \<and>
   bus (lcd_writeChar 0x42 (lcd_power_on\<lparr>lcdCursor := 16, utf8Buffer := 0\<rparr>)) =
     byte_transfer False 0xC0 42 @ byte_transfer True 0x42 46"
proof -
  have a: "utf8_decode (push_bit 8 (utf8Buffer lcd_power_on) OR ucast (0x41 :: 8 word)) = Some 0x41"
    by (simp add: lcd_power_on_def utf8_decode_A)
  have b: "utf8_decode (ucast (0x42 :: 8 word)) = Some 0x42"
    by (simp add: utf8_decode_A)
  have c: "(0x42 :: 32 word) \<noteq> 0x0a"
    by simp
  have d: "lcdCode 0x42 = 0x42"
    by (simp add: lcdCode_def)
  show ?thesis
    using lcd_writeChar_page_break [OF a b c] by (simp add: d lcd_power_on_def)
qed

subsection \<open>Custom glyph registration\<close>

lemma word8_less_8_cases:
  assumes "(d :: 8 word) < 8"
  shows "d = 0 \<or> d = 1 \<or> d = 2 \<or> d = 3 \<or> d = 4 \<or> d = 5 \<or> d = 6 \<or> d = 7"
proof -
  have "unat d < 8"
    using assms by (simp add: word_less_nat_alt)
  then have "unat d = 0 \<or> unat d = 1 \<or> unat d = 2 \<or> unat d = 3 \<or> unat d = 4 \<or> unat d = 5 \<or>
      unat d = 6 \<or> unat d = 7"
    by arith
  then show ?thesis
    by (simp add: word_unat_eq_iff)
qed

lemma cgram_command_masked:
  assumes "\<not> bit addr 4"
  shows "(ucast (0x40 OR (8 * (ucast (addr :: 8 word) :: 16 word))) :: 8 word)
           = 0x40 OR push_bit 3 (addr AND 7)"
proof -
  have "8 * (ucast addr :: 16 word) = push_bit 3 (ucast addr)"
    by (simp add: push_bit_eq_mult)
  then show ?thesis
    using assms
    by (simp add: word8_bits bit_simps even_and_iff even_or_iff)
qed

lemma unat_and_7: "unat ((addr :: 8 word) AND 7) = unat addr mod 8"
proof -
  have "(7 :: 8 word) = mask 3"
    by (simp add: mask_eq_exp_minus_1)
  then have "unat (addr AND 7) = unat (take_bit 3 addr)"
    by (simp add: take_bit_eq_mask)
  also have "\<dots> = take_bit 3 (unat addr)"
    by (simp add: unsigned_take_bit_eq)
  also have "\<dots> = unat addr mod 8"
    by (simp add: take_bit_eq_mod)
  finally show ?thesis .
qed

lemma cgram_command_slot:
  "(0x40 OR push_bit 3 (addr AND 7) :: 8 word) = word_of_nat (64 + 8 * (unat addr mod 8))"
proof -
  have "addr AND 7 < 8"
    by (rule le_less_trans [OF word_and_le1]) simp
  from word8_less_8_cases [OF this]
  have "(0x40 OR push_bit 3 (addr AND 7) :: 8 word) = word_of_nat (64 + 8 * unat (addr AND 7))"
    by (elim disjE; simp)
  then show ?thesis
    by (simp only: unat_and_7)
qed

text \<open>
  C6 (as amended). For every address whose bit 4 is clear (all of 0..15, among others),
  the first command of \<^verbatim>\<open>lcd_registerCustomChar\<close> is "Set CGRAM address" \<open>0b01AAAAAA\<close> with
  the address 8 * (addr mod 8), the first byte of slot addr mod 8.
\<close>

theorem lcd_registerCustomChar_slot:
  assumes "\<not> bit addr 4"
  shows "bus (lcd_registerCustomChar addr chr s) =
     bus s @ byte_transfer False (word_of_nat (64 + 8 * (unat addr mod 8))) 42
           @ bitmap_transfer chr
           @ byte_transfer False (0x80 OR ddram_address (lcdCursor s)) 42"
proof -
  have "(ucast (0x40 OR (8 * (ucast addr :: 16 word))) :: 8 word)
          = word_of_nat (64 + 8 * (unat addr mod 8))"
    using cgram_command_masked [OF assms] cgram_command_slot [of addr] by (rule trans)
  then show ?thesis
    by (simp only: lcd_registerCustomChar_bus)
qed

theorem lcd_registerCustomChar_slot_witness:
  "\<not> bit (9 :: 8 word) 4 \<and>
   bus (lcd_registerCustomChar 9 0 lcd_power_on) =
     byte_transfer False 0x48 42 @ bitmap_transfer 0 @ byte_transfer False 0x80 42"
proof -
  have b: "\<not> bit (9 :: 8 word) 4"
    by simp
  show ?thesis
    using lcd_registerCustomChar_slot [OF b, of 0 lcd_power_on] b
    by (simp add: lcd_power_on_def ddram_address_def)
qed

text \<open>
  C6 as stated fails at address 16: 8 * 16 is 128, and the byte sent is \<open>0xC0\<close>, which is
  "Set DDRAM address" \<open>0x40\<close>, not "Set CGRAM address" 0 for slot 16 mod 8 = 0.
\<close>

theorem lcd_registerCustomChar_16_sets_ddram:
  "bus (lcd_registerCustomChar 16 0 lcd_power_on) =
     byte_transfer False 0xC0 42 @ bitmap_transfer 0 @ byte_transfer False 0x80 42 \<and>
   bus (lcd_registerCustomChar 16 0 lcd_power_on) \<noteq>
     byte_transfer False (word_of_nat (64 + 8 * (unat (16 :: 8 word) mod 8))) 42
       @ bitmap_transfer 0 @ byte_transfer False 0x80 42"
  by (simp add: lcd_registerCustomChar_bus lcd_power_on_def ddram_address_def byte_transfer_def
        nibble_transfer_def)

text \<open>
  C10. For every slot address and bitmap, \<^verbatim>\<open>lcd_registerCustomChar\<close> leaves the logical
  cursor position unchanged. On the bus it issues the command computed from the address,
  the eight bitmap bytes to the data register, and last the "Set DDRAM address" command
  \<open>0x80 | address\<close> for the DDRAM address of the cursor position held before the call.
\<close>

theorem lcd_registerCustomChar_restores:
  "lcdCursor (lcd_registerCustomChar addr chr s) = lcdCursor s \<and>
   bus (lcd_registerCustomChar addr chr s) =
     bus s @ byte_transfer False (ucast (0x40 OR (8 * (ucast addr :: 16 word)))) 42
           @ bitmap_transfer chr
           @ byte_transfer False (0x80 OR ddram_address (lcdCursor s)) 42"
  by (simp add: lcd_registerCustomChar_bus)

subsection \<open>Decimal output\<close>

lemma writeDec_scale_zero: "writeDec_scale 0 m = Inl DivisionByZero"
proof (induction "0 :: 16 word" m rule: writeDec_scale.induct)
  case (1 m)
  show ?case
  proof (cases "m = 0")
    case True
    then show ?thesis by (simp add: writeDec_scale.simps [of 0 0])
  next
    case False
    have "writeDec_scale 0 m = writeDec_scale 0 (m div 10)"
      using False by (subst writeDec_scale.simps) simp
    with 1 False show ?thesis by simp
  qed
qed

text \<open>For every other input no division by zero occurs: the function returns, having
  written the decimal digits of the number without leading zeros.\<close>

lemma decimal_1: "n < 10 \<Longrightarrow> decimal n = [n]"
  by (simp add: decimal.simps [of n])

lemma decimal_2: "10 \<le> n \<Longrightarrow> n < 100 \<Longrightarrow> decimal n = [n div 10, n mod 10]"
  by (simp add: decimal.simps [of n] decimal_1)

lemma decimal_3:
  "100 \<le> n \<Longrightarrow> n < 1000 \<Longrightarrow> decimal n = [n div 100, n div 10 mod 10, n mod 10]"
  by (simp add: decimal.simps [of n] decimal_2 div_mult2_eq [symmetric])

lemma decimal_4:
  "1000 \<le> n \<Longrightarrow> n < 10000 \<Longrightarrow>
     decimal n = [n div 1000, n div 100 mod 10, n div 10 mod 10, n mod 10]"
  by (simp add: decimal.simps [of n] decimal_3 div_mult2_eq [symmetric])

lemma decimal_5:
  "10000 \<le> n \<Longrightarrow> n < 100000 \<Longrightarrow>
     decimal n = [n div 10000, n div 1000 mod 10, n div 100 mod 10, n div 10 mod 10, n mod 10]"
  by (simp add: decimal.simps [of n] decimal_4 div_mult2_eq [symmetric])

lemma digit_char_word: "ucast (0x30 + w :: 16 word) = digit_char (unat w)"
proof -
  have c: "(256 :: nat) dvd 65536"
    by simp
  have "(ucast (0x30 + w) :: 8 word) = of_nat (unat (0x30 + w))"
    by (simp only: of_nat_unat)
  also have "unat (0x30 + w) = (48 + unat w) mod 65536"
    by (simp add: unat_word_ariths)
  also have "(of_nat ((48 + unat w) mod 65536) :: 8 word) = of_nat (48 + unat w)"
    using mod_mod_cancel [OF c, of "48 + unat w"]
    by (subst word_of_nat_eq_iff) (simp add: take_bit_eq_mod)
  finally show ?thesis
    by (simp only: digit_char_def)
qed

lemma places:
  "(n :: nat) mod 100 div 10 = n div 10 mod 10"
  "n mod 1000 div 100 = n div 100 mod 10"
  "n mod 10000 div 1000 = n div 1000 mod 10"
  "n mod 100 mod 10 = n mod 10"
  "n mod 1000 mod 100 = n mod 100"
  "n mod 10000 mod 1000 = n mod 1000"
  "n mod 1000 mod 10 = n mod 10"
  "n mod 10000 mod 10 = n mod 10"
  "n mod 1000 div 10 mod 10 = n div 10 mod 10"
  "n mod 10000 div 10 mod 10 = n div 10 mod 10"
  "n mod 10000 div 100 mod 10 = n div 100 mod 10"
proof -
  show "n mod 1000 mod 10 = n mod 10"
    by (rule mod_mod_cancel) simp
  show "n mod 10000 mod 10 = n mod 10"
    by (rule mod_mod_cancel) simp
  have "n mod 1000 div 10 = n div 10 mod 100"
    using mod_mult2_eq [of n 10 100] by simp
  then show "n mod 1000 div 10 mod 10 = n div 10 mod 10"
    by (simp add: mod_mod_cancel)
  have "n mod 10000 div 10 = n div 10 mod 1000"
    using mod_mult2_eq [of n 10 1000] by simp
  then show "n mod 10000 div 10 mod 10 = n div 10 mod 10"
    by (simp add: mod_mod_cancel)
  have "n mod 10000 div 100 = n div 100 mod 100"
    using mod_mult2_eq [of n 100 100] by simp
  then show "n mod 10000 div 100 mod 10 = n div 100 mod 10"
    by (simp add: mod_mod_cancel)
  show "n mod 100 div 10 = n div 10 mod 10"
    using mod_mult2_eq [of n 10 10] by simp
  show "n mod 1000 div 100 = n div 100 mod 10"
    using mod_mult2_eq [of n 100 10] by simp
  show "n mod 10000 div 1000 = n div 1000 mod 10"
    using mod_mult2_eq [of n 1000 10] by simp
  show "n mod 100 mod 10 = n mod 10"
    by (rule mod_mod_cancel) simp
  show "n mod 1000 mod 100 = n mod 100"
    by (rule mod_mod_cancel) simp
  show "n mod 10000 mod 1000 = n mod 1000"
    by (rule mod_mod_cancel) simp
qed

lemma writeDec_digits_unfold:
  assumes "m \<noteq> 0"
  shows "writeDec_digits number m s =
     writeDec_digits (number mod m) (m div 10) (lcd_writeChar (digit_char (unat number div unat m)) s)"
proof -
  have "writeDec_digits number m s =
      writeDec_digits (number mod m) (m div 10) (lcd_writeChar (ucast (0x30 + number div m)) s)"
    using assms by (subst writeDec_digits.simps) (simp only: if_False)
  then show ?thesis
    by (simp only: digit_char_word unat_div)
qed

lemma writeDec_digits_stop: "writeDec_digits number 0 s = s"
  by (subst writeDec_digits.simps) simp

lemma digits_from_1:
  "writeDec_digits number 1 s = fold lcd_writeChar (map digit_char [unat number]) s"
  using writeDec_digits_unfold [of 1 number s]
  by (simp add: writeDec_digits_stop)

lemma digits_from_10:
  "writeDec_digits number 10 s =
     fold lcd_writeChar (map digit_char [unat number div 10, unat number mod 10]) s"
  using writeDec_digits_unfold [of 10 number s]
  by (simp add: digits_from_1 unat_mod)

lemma digits_from_100:
  "writeDec_digits number 100 s =
     fold lcd_writeChar
       (map digit_char [unat number div 100, unat number div 10 mod 10, unat number mod 10]) s"
  using writeDec_digits_unfold [of 100 number s]
  by (simp add: digits_from_10 unat_mod places)

lemma digits_from_1000:
  "writeDec_digits number 1000 s =
     fold lcd_writeChar
       (map digit_char [unat number div 1000, unat number div 100 mod 10,
          unat number div 10 mod 10, unat number mod 10]) s"
  using writeDec_digits_unfold [of 1000 number s]
  by (simp add: digits_from_100 unat_mod places)

lemma digits_from_10000:
  "writeDec_digits number 10000 s =
     fold lcd_writeChar
       (map digit_char [unat number div 10000, unat number div 1000 mod 10,
          unat number div 100 mod 10, unat number div 10 mod 10, unat number mod 10]) s"
  using writeDec_digits_unfold [of 10000 number s]
  by (simp add: digits_from_1000 unat_mod places)

lemma scale_less:
  assumes "m \<noteq> 0"
  shows "(number :: 16 word) div m = 0 \<longleftrightarrow> unat number < unat m"
proof -
  have "0 < unat m"
    using assms by (simp add: unat_gt_0)
  then show ?thesis
    by (simp add: word_unat_eq_iff unat_div div_eq_0_iff)
qed

lemma lcd_writeDec_nonzero:
  assumes "number \<noteq> 0"
  shows "lcd_writeDec number s =
           Inr (fold lcd_writeChar (map digit_char (decimal (unat number))) s)"
proof -
  let ?n = "unat number"
  have pos: "0 < ?n"
    using assms by (simp add: unat_gt_0)
  have top: "?n < 100000"
    using unsigned_less [of number, where ?'a = nat] by simp
  consider "?n < 10" | "10 \<le> ?n" "?n < 100" | "100 \<le> ?n" "?n < 1000"
    | "1000 \<le> ?n" "?n < 10000" | "10000 \<le> ?n"
    by linarith
  then show ?thesis
  proof cases
    case 1
    then have "writeDec_scale number 10000 = Inr 1"
      using assms
      by (simp add: writeDec_scale.simps [of number 10000] writeDec_scale.simps [of number 1000]
            writeDec_scale.simps [of number 100] writeDec_scale.simps [of number 10]
            writeDec_scale.simps [of number 1] scale_less)
    then show ?thesis
      using assms 1 by (simp add: lcd_writeDec_def digits_from_1 decimal_1)
  next
    case 2
    then have "writeDec_scale number 10000 = Inr 10"
      by (simp add: writeDec_scale.simps [of number 10000] writeDec_scale.simps [of number 1000]
            writeDec_scale.simps [of number 100] writeDec_scale.simps [of number 10] scale_less)
    then show ?thesis
      using assms 2 by (simp add: lcd_writeDec_def digits_from_10 decimal_2)
  next
    case 3
    then have "writeDec_scale number 10000 = Inr 100"
      by (simp add: writeDec_scale.simps [of number 10000] writeDec_scale.simps [of number 1000]
            writeDec_scale.simps [of number 100] scale_less)
    then show ?thesis
      using assms 3 by (simp add: lcd_writeDec_def digits_from_100 decimal_3)
  next
    case 4
    then have "writeDec_scale number 10000 = Inr 1000"
      by (simp add: writeDec_scale.simps [of number 10000] writeDec_scale.simps [of number 1000]
            scale_less)
    then show ?thesis
      using assms 4 by (simp add: lcd_writeDec_def digits_from_1000 decimal_4)
  next
    case 5
    then have "writeDec_scale number 10000 = Inr 10000"
      by (simp add: writeDec_scale.simps [of number 10000] scale_less)
    then show ?thesis
      using assms 5 top by (simp add: lcd_writeDec_def digits_from_10000 decimal_5)
  qed
qed

text \<open>
  C7. For the input 0, \<^verbatim>\<open>lcd_writeDec\<close> writes the character 0 and goes on into the first
  loop, which divides the mask down to 0 and then evaluates \<open>0 / 0\<close>.
\<close>

theorem lcd_writeDec_zero_divides_by_zero: "lcd_writeDec 0 s = Inl DivisionByZero"
  by (simp add: lcd_writeDec_def Let_def writeDec_scale_zero)

subsection \<open>Initialisation\<close>

lemma glyph_command_bytes:
  "(ucast (0x40 OR (8 * (ucast LCD_CC_TILDE :: 16 word))) :: 8 word) = 0x48"
  "(ucast (0x40 OR (8 * (ucast LCD_CC_BACKSLASH :: 16 word))) :: 8 word) = 0x50"
  by (simp_all add: LCD_CC_TILDE_def LCD_CC_BACKSLASH_def)

text \<open>
  C8. Started with EN low, \<^verbatim>\<open>lcd_init\<close> waits 15 ms and then drives the bus with the
  instruction nibbles 0011, 0011, 0011 and 0010, each followed by its fixed delay, then
  the command bytes 00101000, 00001000, 00000001, 00000110 and 00001100, each followed by
  its fixed delay, and only then registers the two custom glyphs.
\<close>

theorem lcd_init_sequence:
  assumes "\<not> bit (PORTA s) EN_PIN"
  shows "bus (lcd_init s) =
     bus s @ [DelayMs 15]
       @ nibble_transfer False 0b0011 @ [DelayMs 5]
       @ nibble_transfer False 0b0011 @ [DelayUs 100]
       @ nibble_transfer False 0b0011 @ [DelayUs 100]
       @ nibble_transfer False 0b0010 @ [DelayUs 42]
       @ byte_transfer False 0b00101000 42
       @ byte_transfer False 0b00001000 42
       @ byte_transfer False 0b00000001 1640
       @ byte_transfer False 0b00000110 42
       @ byte_transfer False 0b00001100 42
       @ (byte_transfer False 0x48 42 @ bitmap_transfer LCD_CC_TILDE_BITMAP
            @ byte_transfer False 0x80 42)
       @ (byte_transfer False 0x50 42 @ bitmap_transfer LCD_CC_BACKSLASH_BITMAP
            @ byte_transfer False 0x80 42)"
proof -
  let ?s1 = "ddr_set RS_PIN (port_clear RS_PIN (ddr_set RW_PIN (port_clear RW_PIN s)))"
  have idle: "\<not> bit (PORTA ?s1) EN_PIN"
    using assms by (simp only: init_pins_EN not_False_eq_True)
  have pins_bus: "bus (en_low ?s1) = bus s"
    using en_low_idle_bus [OF idle] by simp
  show ?thesis
    by (simp add: lcd_init_def Let_def lcd_registerCustomChar_bus glyph_command_bytes
          SEND_BYTE_bus lcd_clear_bus sendNibble_bus delay_us_def delayMs_def pins_bus
          ddram_address_def)
qed

theorem lcd_init_sequence_witness:
  "\<not> bit (PORTA lcd_power_on) EN_PIN \<and>
   bus (lcd_init lcd_power_on) =
     [DelayMs 15]
       @ nibble_transfer False 3 @ [DelayMs 5]
       @ nibble_transfer False 3 @ [DelayUs 100]
       @ nibble_transfer False 3 @ [DelayUs 100]
       @ nibble_transfer False 2 @ [DelayUs 42]
       @ byte_transfer False 0x28 42
       @ byte_transfer False 0x08 42
       @ byte_transfer False 0x01 1640
       @ byte_transfer False 0x06 42
       @ byte_transfer False 0x0C 42
       @ (byte_transfer False 0x48 42 @ bitmap_transfer LCD_CC_TILDE_BITMAP
            @ byte_transfer False 0x80 42)
       @ (byte_transfer False 0x50 42 @ bitmap_transfer LCD_CC_BACKSLASH_BITMAP
            @ byte_transfer False 0x80 42)"
proof -
  have idle: "\<not> bit (PORTA lcd_power_on) EN_PIN"
    by (simp add: lcd_power_on_def)
  show ?thesis
    using lcd_init_sequence [OF idle] idle by (simp add: lcd_power_on_def)
qed

subsection \<open>Decoding the bytes of the reference encoder\<close>

lemma all_less_32:
  "(\<forall>n<32. P (n::nat)) \<longleftrightarrow> P 0 \<and> P 1 \<and> P 2 \<and> P 3 \<and> P 4 \<and> P 5 \<and> P 6 \<and> P 7 \<and> P 8 \<and> P 9 \<and> P 10 \<and> P 11 \<and> P 12 \<and> P 13 \<and> P 14 \<and> P 15 \<and> P 16 \<and> P 17 \<and> P 18 \<and> P 19 \<and> P 20 \<and> P 21 \<and> P 22 \<and> P 23 \<and> P 24 \<and> P 25 \<and> P 26 \<and> P 27 \<and> P 28 \<and> P 29 \<and> P 30 \<and> P 31"
proof -
  have "(\<forall>n<32. P n) \<longleftrightarrow> (\<forall>n < Suc (Suc (Suc (Suc (Suc (Suc (Suc (Suc (Suc (Suc (Suc (Suc (Suc (Suc (Suc (Suc (Suc (Suc (Suc (Suc (Suc (Suc (Suc (Suc (Suc (Suc (Suc (Suc (Suc (Suc (Suc (Suc (0)))))))))))))))))))))))))))))))). P n)"
    by (simp add: eval_nat_numeral)
  also have "\<dots> \<longleftrightarrow> P 0 \<and> P 1 \<and> P 2 \<and> P 3 \<and> P 4 \<and> P 5 \<and> P 6 \<and> P 7 \<and> P 8 \<and> P 9 \<and> P 10 \<and> P 11 \<and> P 12 \<and> P 13 \<and> P 14 \<and> P 15 \<and> P 16 \<and> P 17 \<and> P 18 \<and> P 19 \<and> P 20 \<and> P 21 \<and> P 22 \<and> P 23 \<and> P 24 \<and> P 25 \<and> P 26 \<and> P 27 \<and> P 28 \<and> P 29 \<and> P 30 \<and> P 31"
    unfolding All_less_Suc by (simp add: eval_nat_numeral conj_ac)
  finally show ?thesis .
qed

lemma word32_eq_iff: "(a :: 32 word) = b \<longleftrightarrow> (\<forall>n<32. bit a n = bit b n)"
  by (auto intro: bit_word_eqI)

lemmas word32_bits = word32_eq_iff [unfolded all_less_32]

lemma upper_bits_clear:
  assumes "(w :: 32 word) < 2 ^ k" and "k \<le> n"
  shows "\<not> bit w n"
proof -
  have "w AND mask k = w"
    using assms(1) by (rule less_mask_eq)
  then have "bit w n = bit (w AND mask k) n"
    by simp
  then show ?thesis
    using assms(2) by (simp add: bit_simps)
qed

lemma decode_1:
  assumes "cp < 0x80"
  shows "utf8_decode (ucast (ucast cp :: 8 word)) = Some cp"
proof -
  have "cp < 2 ^ 7" using assms by simp
  note hi = upper_bits_clear [OF this]
  show ?thesis
    using hi [of 7] hi [of 8] hi [of 9] hi [of 10] hi [of 11] hi [of 12] hi [of 13] hi [of 14] hi [of 15]
      hi [of 16] hi [of 17] hi [of 18] hi [of 19] hi [of 20] hi [of 21] hi [of 22] hi [of 23]
      hi [of 24] hi [of 25] hi [of 26] hi [of 27] hi [of 28] hi [of 29] hi [of 30] hi [of 31]
    by (simp add: utf8_decode_def word32_bits bit_simps del: bit_0)
qed

lemma decode_2:
  assumes "cp < 0x800"
  shows "utf8_decode (ucast (0xC0 OR ucast (drop_bit 6 cp) :: 8 word)) = None"
    and "utf8_decode (push_bit 8 (ucast (0xC0 OR ucast (drop_bit 6 cp) :: 8 word))
           OR ucast (0x80 OR (ucast cp AND 0x3f) :: 8 word)) = Some cp"
proof -
  have "cp < 2 ^ 11" using assms by simp
  note hi = upper_bits_clear [OF this]
  show "utf8_decode (ucast (0xC0 OR ucast (drop_bit 6 cp) :: 8 word)) = None"
    by (simp add: utf8_decode_def word32_bits bit_simps del: bit_0)
  show "utf8_decode (push_bit 8 (ucast (0xC0 OR ucast (drop_bit 6 cp) :: 8 word))
           OR ucast (0x80 OR (ucast cp AND 0x3f) :: 8 word)) = Some cp"
    using hi [of 11] hi [of 12] hi [of 13] hi [of 14] hi [of 15] hi [of 16] hi [of 17] hi [of 18] hi [of 19] hi [of 20] hi [of 21] hi [of 22] hi [of 23] hi [of 24] hi [of 25] hi [of 26] hi [of 27] hi [of 28] hi [of 29] hi [of 30] hi [of 31]
    by (simp add: utf8_decode_def word32_bits bit_simps del: bit_0)
qed

lemma decode_3:
  assumes "cp < 0x10000"
  shows "utf8_decode (ucast (0xE0 OR ucast (drop_bit 12 cp) :: 8 word)) = None"
    and "utf8_decode (push_bit 8 (ucast (0xE0 OR ucast (drop_bit 12 cp) :: 8 word))
           OR ucast (0x80 OR (ucast (drop_bit 6 cp) AND 0x3f) :: 8 word)) = None"
    and "utf8_decode (push_bit 8 (push_bit 8 (ucast (0xE0 OR ucast (drop_bit 12 cp) :: 8 word))
           OR ucast (0x80 OR (ucast (drop_bit 6 cp) AND 0x3f) :: 8 word))
           OR ucast (0x80 OR (ucast cp AND 0x3f) :: 8 word)) = Some cp"
proof -
  have "cp < 2 ^ 16" using assms by simp
  note hi = upper_bits_clear [OF this]
  show "utf8_decode (ucast (0xE0 OR ucast (drop_bit 12 cp) :: 8 word)) = None"
    by (simp add: utf8_decode_def word32_bits bit_simps del: bit_0)
  show "utf8_decode (push_bit 8 (ucast (0xE0 OR ucast (drop_bit 12 cp) :: 8 word))
           OR ucast (0x80 OR (ucast (drop_bit 6 cp) AND 0x3f) :: 8 word)) = None"
    by (simp add: utf8_decode_def word32_bits bit_simps del: bit_0)
  show "utf8_decode (push_bit 8 (push_bit 8 (ucast (0xE0 OR ucast (drop_bit 12 cp) :: 8 word))
           OR ucast (0x80 OR (ucast (drop_bit 6 cp) AND 0x3f) :: 8 word))
           OR ucast (0x80 OR (ucast cp AND 0x3f) :: 8 word)) = Some cp"
    using hi [of 16] hi [of 17] hi [of 18] hi [of 19] hi [of 20] hi [of 21] hi [of 22] hi [of 23] hi [of 24] hi [of 25] hi [of 26] hi [of 27] hi [of 28] hi [of 29] hi [of 30] hi [of 31]
    by (simp add: utf8_decode_def word32_bits bit_simps del: bit_0)
qed

lemma decode_4:
  assumes "cp \<le> 0x10FFFF"
  shows "utf8_decode (ucast (0xF0 OR ucast (drop_bit 18 cp) :: 8 word)) = None"
    and "utf8_decode (push_bit 8 (ucast (0xF0 OR ucast (drop_bit 18 cp) :: 8 word))
           OR ucast (0x80 OR (ucast (drop_bit 12 cp) AND 0x3f) :: 8 word)) = None"
    and "utf8_decode (push_bit 8 (push_bit 8 (ucast (0xF0 OR ucast (drop_bit 18 cp) :: 8 word))
           OR ucast (0x80 OR (ucast (drop_bit 12 cp) AND 0x3f) :: 8 word))
           OR ucast (0x80 OR (ucast (drop_bit 6 cp) AND 0x3f) :: 8 word)) = None"
    and "utf8_decode (push_bit 8 (push_bit 8 (push_bit 8 (ucast (0xF0 OR ucast (drop_bit 18 cp) :: 8 word))
           OR ucast (0x80 OR (ucast (drop_bit 12 cp) AND 0x3f) :: 8 word))
           OR ucast (0x80 OR (ucast (drop_bit 6 cp) AND 0x3f) :: 8 word))
           OR ucast (0x80 OR (ucast cp AND 0x3f) :: 8 word)) = Some cp"
proof -
  have "cp < 2 ^ 21" using assms by (simp add: word_le_nat_alt word_less_nat_alt)
  note hi = upper_bits_clear [OF this]
  show "utf8_decode (ucast (0xF0 OR ucast (drop_bit 18 cp) :: 8 word)) = None"
    by (simp add: utf8_decode_def word32_bits bit_simps del: bit_0)
  show "utf8_decode (push_bit 8 (ucast (0xF0 OR ucast (drop_bit 18 cp) :: 8 word))
           OR ucast (0x80 OR (ucast (drop_bit 12 cp) AND 0x3f) :: 8 word)) = None"
    by (simp add: utf8_decode_def word32_bits bit_simps del: bit_0)
  show "utf8_decode (push_bit 8 (push_bit 8 (ucast (0xF0 OR ucast (drop_bit 18 cp) :: 8 word))
           OR ucast (0x80 OR (ucast (drop_bit 12 cp) AND 0x3f) :: 8 word))
           OR ucast (0x80 OR (ucast (drop_bit 6 cp) AND 0x3f) :: 8 word)) = None"
    by (simp add: utf8_decode_def word32_bits bit_simps del: bit_0)
  show "utf8_decode (push_bit 8 (push_bit 8 (push_bit 8 (ucast (0xF0 OR ucast (drop_bit 18 cp) :: 8 word))
           OR ucast (0x80 OR (ucast (drop_bit 12 cp) AND 0x3f) :: 8 word))
           OR ucast (0x80 OR (ucast (drop_bit 6 cp) AND 0x3f) :: 8 word))
           OR ucast (0x80 OR (ucast cp AND 0x3f) :: 8 word)) = Some cp"
    using hi [of 21] hi [of 22] hi [of 23] hi [of 24] hi [of 25] hi [of 26] hi [of 27] hi [of 28] hi [of 29] hi [of 30] hi [of 31]
    by (simp add: utf8_decode_def word32_bits bit_simps del: bit_0)
qed

lemma dispatched_last:
  assumes "utf8_decode (push_bit 8 B OR ucast c) = Some cp"
  shows "dispatched cp s (lcd_writeChar c (s\<lparr>utf8Buffer := B\<rparr>))"
proof -
  let ?s = "s\<lparr>utf8Buffer := B\<rparr>"
  have d: "utf8_decode (push_bit 8 (utf8Buffer ?s) OR ucast c) = Some cp"
    using assms by simp
  show ?thesis
    unfolding dispatched_def
    using lcd_writeChar_dispatch_bus [OF d] lcd_writeChar_dispatch_lcdCursor [OF d]
      lcd_writeChar_dispatch_utf8Buffer [OF d]
    by simp
qed

lemma buffered:
  assumes "utf8_decode (push_bit 8 B OR ucast c) = None"
  shows "lcd_writeChar c (s\<lparr>utf8Buffer := B\<rparr>) = s\<lparr>utf8Buffer := push_bit 8 B OR ucast c\<rparr>"
  using assms by (simp add: lcd_writeChar_incomplete)

lemma round_trip_1:
  assumes "cp < 0x80" and "utf8Buffer s = 0"
  shows "dispatched cp s (fold lcd_writeChar (utf8_encode cp) s)"
    and "\<forall>k < length (utf8_encode cp).
           bus (fold lcd_writeChar (take k (utf8_encode cp)) s) = bus s \<and>
           lcdCursor (fold lcd_writeChar (take k (utf8_encode cp)) s) = lcdCursor s"
proof -
  have s: "s = s\<lparr>utf8Buffer := 0\<rparr>"
    using assms(2) by simp
  have enc: "utf8_encode cp = [ucast cp]"
    using assms(1) by (simp add: utf8_encode_def)
  have "utf8_decode (push_bit 8 0 OR ucast (ucast cp :: 8 word)) = Some cp"
    using decode_1 [OF assms(1)] by simp
  from dispatched_last [OF this, of s]
  show "dispatched cp s (fold lcd_writeChar (utf8_encode cp) s)"
    using s by (simp add: enc)
  show "\<forall>k < length (utf8_encode cp).
           bus (fold lcd_writeChar (take k (utf8_encode cp)) s) = bus s \<and>
           lcdCursor (fold lcd_writeChar (take k (utf8_encode cp)) s) = lcdCursor s"
    by (simp add: enc)
qed

lemma round_trip_2:
  assumes "\<not> cp < 0x80" and "cp < 0x800" and "utf8Buffer s = 0"
  shows "dispatched cp s (fold lcd_writeChar (utf8_encode cp) s)"
    and "\<forall>k < length (utf8_encode cp).
           bus (fold lcd_writeChar (take k (utf8_encode cp)) s) = bus s \<and>
           lcdCursor (fold lcd_writeChar (take k (utf8_encode cp)) s) = lcdCursor s"
proof -
  define b1 :: "8 word" where "b1 = 0xC0 OR ucast (drop_bit 6 cp)"
  define b2 :: "8 word" where "b2 = 0x80 OR (ucast cp AND 0x3f)"
  have s: "s = s\<lparr>utf8Buffer := 0\<rparr>"
    using assms(3) by simp
  have enc: "utf8_encode cp = [b1, b2]"
    using assms(1,2) by (simp add: utf8_encode_def b1_def b2_def)
  have d1: "utf8_decode (push_bit 8 0 OR ucast b1) = None"
    using decode_2(1) [OF assms(2)] by (simp add: b1_def)
  have d2: "utf8_decode (push_bit 8 (push_bit 8 0 OR ucast b1) OR ucast b2) = Some cp"
    using decode_2(2) [OF assms(2)] by (simp add: b1_def b2_def)
  have s1: "lcd_writeChar b1 s = s\<lparr>utf8Buffer := push_bit 8 0 OR ucast b1\<rparr>"
    using buffered [OF d1, of s] s by simp
  have "dispatched cp s (lcd_writeChar b2 (lcd_writeChar b1 s))"
    unfolding s1 by (rule dispatched_last [OF d2])
  then show "dispatched cp s (fold lcd_writeChar (utf8_encode cp) s)"
    by (simp add: enc)
  show "\<forall>k < length (utf8_encode cp).
           bus (fold lcd_writeChar (take k (utf8_encode cp)) s) = bus s \<and>
           lcdCursor (fold lcd_writeChar (take k (utf8_encode cp)) s) = lcdCursor s"
    by (simp add: enc All_less_Suc s1)
qed

lemma round_trip_3:
  assumes "\<not> cp < 0x800" and "cp < 0x10000" and "utf8Buffer s = 0"
  shows "dispatched cp s (fold lcd_writeChar (utf8_encode cp) s)"
    and "\<forall>k < length (utf8_encode cp).
           bus (fold lcd_writeChar (take k (utf8_encode cp)) s) = bus s \<and>
           lcdCursor (fold lcd_writeChar (take k (utf8_encode cp)) s) = lcdCursor s"
proof -
  define b1 :: "8 word" where "b1 = 0xE0 OR ucast (drop_bit 12 cp)"
  define b2 :: "8 word" where "b2 = 0x80 OR (ucast (drop_bit 6 cp) AND 0x3f)"
  define b3 :: "8 word" where "b3 = 0x80 OR (ucast cp AND 0x3f)"
  have s: "s = s\<lparr>utf8Buffer := 0\<rparr>"
    using assms(3) by simp
  have "\<not> cp < 0x80"
    using assms(1) by (simp add: word_less_nat_alt)
  then have enc: "utf8_encode cp = [b1, b2, b3]"
    using assms(1,2) by (simp add: utf8_encode_def b1_def b2_def b3_def)
  have d1: "utf8_decode (push_bit 8 0 OR ucast b1) = None"
    using decode_3(1) [OF assms(2)] by (simp add: b1_def)
  have d2: "utf8_decode (push_bit 8 (push_bit 8 0 OR ucast b1) OR ucast b2) = None"
    using decode_3(2) [OF assms(2)] by (simp add: b1_def b2_def)
  have d3: "utf8_decode (push_bit 8 (push_bit 8 (push_bit 8 0 OR ucast b1) OR ucast b2)
              OR ucast b3) = Some cp"
    using decode_3(3) [OF assms(2)] by (simp add: b1_def b2_def b3_def)
  have s1: "lcd_writeChar b1 s = s\<lparr>utf8Buffer := push_bit 8 0 OR ucast b1\<rparr>"
    using buffered [OF d1, of s] s by simp
  have s2: "lcd_writeChar b2 (lcd_writeChar b1 s) =
      s\<lparr>utf8Buffer := push_bit 8 (push_bit 8 0 OR ucast b1) OR ucast b2\<rparr>"
    unfolding s1 by (rule buffered [OF d2])
  have "dispatched cp s (lcd_writeChar b3 (lcd_writeChar b2 (lcd_writeChar b1 s)))"
    unfolding s2 by (rule dispatched_last [OF d3])
  then show "dispatched cp s (fold lcd_writeChar (utf8_encode cp) s)"
    by (simp add: enc)
  show "\<forall>k < length (utf8_encode cp).
           bus (fold lcd_writeChar (take k (utf8_encode cp)) s) = bus s \<and>
           lcdCursor (fold lcd_writeChar (take k (utf8_encode cp)) s) = lcdCursor s"
  proof -
    have p1: "bus (lcd_writeChar b1 s) = bus s \<and> lcdCursor (lcd_writeChar b1 s) = lcdCursor s"
      by (simp add: s1)
    have p2: "bus (lcd_writeChar b2 (lcd_writeChar b1 s)) = bus s \<and>
        lcdCursor (lcd_writeChar b2 (lcd_writeChar b1 s)) = lcdCursor s"
      by (simp add: s2)
    show ?thesis
      by (simp add: enc All_less_Suc p1 p2)
  qed
qed

lemma round_trip_4:
  assumes "\<not> cp < 0x10000" and "cp \<le> 0x10FFFF" and "utf8Buffer s = 0"
  shows "dispatched cp s (fold lcd_writeChar (utf8_encode cp) s)"
    and "\<forall>k < length (utf8_encode cp).
           bus (fold lcd_writeChar (take k (utf8_encode cp)) s) = bus s \<and>
           lcdCursor (fold lcd_writeChar (take k (utf8_encode cp)) s) = lcdCursor s"
proof -
  define b1 :: "8 word" where "b1 = 0xF0 OR ucast (drop_bit 18 cp)"
  define b2 :: "8 word" where "b2 = 0x80 OR (ucast (drop_bit 12 cp) AND 0x3f)"
  define b3 :: "8 word" where "b3 = 0x80 OR (ucast (drop_bit 6 cp) AND 0x3f)"
  define b4 :: "8 word" where "b4 = 0x80 OR (ucast cp AND 0x3f)"
  have s: "s = s\<lparr>utf8Buffer := 0\<rparr>"
    using assms(3) by simp
  have "\<not> cp < 0x80" "\<not> cp < 0x800"
    using assms(1) by (simp_all add: word_less_nat_alt)
  then have enc: "utf8_encode cp = [b1, b2, b3, b4]"
    using assms(1) by (simp add: utf8_encode_def b1_def b2_def b3_def b4_def)
  have d1: "utf8_decode (push_bit 8 0 OR ucast b1) = None"
    using decode_4(1) [OF assms(2)] by (simp add: b1_def)
  have d2: "utf8_decode (push_bit 8 (push_bit 8 0 OR ucast b1) OR ucast b2) = None"
    using decode_4(2) [OF assms(2)] by (simp add: b1_def b2_def)
  have d3: "utf8_decode (push_bit 8 (push_bit 8 (push_bit 8 0 OR ucast b1) OR ucast b2)
              OR ucast b3) = None"
    using decode_4(3) [OF assms(2)] by (simp add: b1_def b2_def b3_def)
  have d4: "utf8_decode (push_bit 8 (push_bit 8 (push_bit 8 (push_bit 8 0 OR ucast b1) OR ucast b2)
              OR ucast b3) OR ucast b4) = Some cp"
    using decode_4(4) [OF assms(2)] by (simp add: b1_def b2_def b3_def b4_def)
  have s1: "lcd_writeChar b1 s = s\<lparr>utf8Buffer := push_bit 8 0 OR ucast b1\<rparr>"
    using buffered [OF d1, of s] s by simp
  have s2: "lcd_writeChar b2 (lcd_writeChar b1 s) =
      s\<lparr>utf8Buffer := push_bit 8 (push_bit 8 0 OR ucast b1) OR ucast b2\<rparr>"
    unfolding s1 by (rule buffered [OF d2])
  have s3: "lcd_writeChar b3 (lcd_writeChar b2 (lcd_writeChar b1 s)) =
      s\<lparr>utf8Buffer := push_bit 8 (push_bit 8 (push_bit 8 0 OR ucast b1) OR ucast b2) OR ucast b3\<rparr>"
    unfolding s2 by (rule buffered [OF d3])
  have "dispatched cp s (lcd_writeChar b4 (lcd_writeChar b3 (lcd_writeChar b2 (lcd_writeChar b1 s))))"
    unfolding s3 by (rule dispatched_last [OF d4])
  then show "dispatched cp s (fold lcd_writeChar (utf8_encode cp) s)"
    by (simp add: enc)
  show "\<forall>k < length (utf8_encode cp).
           bus (fold lcd_writeChar (take k (utf8_encode cp)) s) = bus s \<and>
           lcdCursor (fold lcd_writeChar (take k (utf8_encode cp)) s) = lcdCursor s"
  proof -
    have p1: "bus (lcd_writeChar b1 s) = bus s \<and> lcdCursor (lcd_writeChar b1 s) = lcdCursor s"
      by (simp add: s1)
    have p2: "bus (lcd_writeChar b2 (lcd_writeChar b1 s)) = bus s \<and>
        lcdCursor (lcd_writeChar b2 (lcd_writeChar b1 s)) = lcdCursor s"
      by (simp add: s2)
    have p3: "bus (lcd_writeChar b3 (lcd_writeChar b2 (lcd_writeChar b1 s))) = bus s \<and>
        lcdCursor (lcd_writeChar b3 (lcd_writeChar b2 (lcd_writeChar b1 s))) = lcdCursor s"
      by (simp add: s3)
    show ?thesis
      by (simp add: enc All_less_Suc p1 p2 p3)
  qed
qed

subsection \<open>Decoding malformed sequences\<close>

lemma byte_high: "8 \<le> n \<Longrightarrow> bit (b :: 8 word) n \<longleftrightarrow> False"
  by (auto dest: bit_imp_le_length)

lemma malformed_2:
  assumes "b1 AND 0xE0 = 0xC0" and "b2 AND 0xC0 \<noteq> 0x80"
  shows "utf8_decode (ucast (b1 :: 8 word)) = None"
    and "utf8_decode (push_bit 8 (ucast b1) OR ucast (b2 :: 8 word)) = Some 0xfffd"
proof -
  have lead: "bit b1 7" "bit b1 6" "\<not> bit b1 5"
    using assms(1) by (simp_all add: word8_bits bit_simps del: bit_0)
  have bad: "\<not> bit b2 7 \<or> bit b2 6"
    using assms(2) by (auto simp add: word8_bits bit_simps simp del: bit_0)
  show "utf8_decode (ucast b1) = None"
    using lead by (simp add: utf8_decode_def word32_bits bit_simps byte_high del: bit_0)
  from bad show "utf8_decode (push_bit 8 (ucast b1) OR ucast b2) = Some 0xfffd"
    by (elim disjE) (use lead in \<open>simp_all add: utf8_decode_def word32_bits bit_simps byte_high del: bit_0\<close>)
qed

lemma malformed_3:
  assumes "b1 AND 0xF0 = 0xE0" and "\<not> (b2 AND 0xC0 = 0x80 \<and> b3 AND 0xC0 = 0x80)"
  shows "utf8_decode (ucast (b1 :: 8 word)) = None"
    and "utf8_decode (push_bit 8 (ucast b1) OR ucast (b2 :: 8 word)) = None"
    and "utf8_decode (push_bit 8 (push_bit 8 (ucast b1) OR ucast b2) OR ucast (b3 :: 8 word))
           = Some 0xfffd"
proof -
  have lead: "bit b1 7" "bit b1 6" "bit b1 5" "\<not> bit b1 4"
    using assms(1) by (simp_all add: word8_bits bit_simps del: bit_0)
  have bad: "\<not> bit b2 7 \<or> bit b2 6 \<or> \<not> bit b3 7 \<or> bit b3 6"
    using assms(2) by (auto simp add: word8_bits bit_simps simp del: bit_0)
  show "utf8_decode (ucast b1) = None"
    using lead by (simp add: utf8_decode_def word32_bits bit_simps byte_high del: bit_0)
  show "utf8_decode (push_bit 8 (ucast b1) OR ucast b2) = None"
    using lead by (simp add: utf8_decode_def word32_bits bit_simps byte_high del: bit_0)
  from bad
  show "utf8_decode (push_bit 8 (push_bit 8 (ucast b1) OR ucast b2) OR ucast b3) = Some 0xfffd"
    by (elim disjE)
      (use lead in \<open>simp_all add: utf8_decode_def word32_bits bit_simps byte_high del: bit_0\<close>)
qed

lemma malformed_4:
  assumes "b1 AND 0xF8 = 0xF0"
    and "\<not> (b2 AND 0xC0 = 0x80 \<and> b3 AND 0xC0 = 0x80 \<and> b4 AND 0xC0 = 0x80)"
  shows "utf8_decode (ucast (b1 :: 8 word)) = None"
    and "utf8_decode (push_bit 8 (ucast b1) OR ucast (b2 :: 8 word)) = None"
    and "utf8_decode (push_bit 8 (push_bit 8 (ucast b1) OR ucast b2) OR ucast (b3 :: 8 word))
           = None"
    and "utf8_decode (push_bit 8 (push_bit 8 (push_bit 8 (ucast b1) OR ucast b2) OR ucast b3)
           OR ucast (b4 :: 8 word)) = Some 0xfffd"
proof -
  have lead: "bit b1 7" "bit b1 6" "bit b1 5" "bit b1 4" "\<not> bit b1 3"
    using assms(1) by (simp_all add: word8_bits bit_simps del: bit_0)
  have bad: "\<not> bit b2 7 \<or> bit b2 6 \<or> \<not> bit b3 7 \<or> bit b3 6 \<or> \<not> bit b4 7 \<or> bit b4 6"
    using assms(2) by (auto simp add: word8_bits bit_simps simp del: bit_0)
  show "utf8_decode (ucast b1) = None"
    using lead by (simp add: utf8_decode_def word32_bits bit_simps byte_high del: bit_0)
  show "utf8_decode (push_bit 8 (ucast b1) OR ucast b2) = None"
    using lead by (simp add: utf8_decode_def word32_bits bit_simps byte_high del: bit_0)
  show "utf8_decode (push_bit 8 (push_bit 8 (ucast b1) OR ucast b2) OR ucast b3) = None"
    using lead by (simp add: utf8_decode_def word32_bits bit_simps byte_high del: bit_0)
  from bad
  show "utf8_decode (push_bit 8 (push_bit 8 (push_bit 8 (ucast b1) OR ucast b2) OR ucast b3)
           OR ucast b4) = Some 0xfffd"
    by (elim disjE)
      (use lead in \<open>simp_all add: utf8_decode_def word32_bits bit_simps byte_high del: bit_0\<close>)
qed

lemma stray_byte:
  assumes "b AND 0xC0 = 0x80 \<or> b AND 0xF8 = 0xF8"
  shows "utf8_decode (ucast (b :: 8 word)) = None"
proof -
  have "bit b 7"
    using assms by (auto simp add: word8_bits bit_simps simp del: bit_0)
  then show ?thesis
    by (simp add: utf8_decode_def word32_bits bit_simps byte_high del: bit_0)
qed

subsection \<open>The round trip\<close>

lemma dispatched_glyph:
  assumes "dispatched cp s t" and "cp \<noteq> 0x0a"
  shows "bus t = bus s @ glyph_transfer (lcdCursor s) (lcdCode cp)"
    and "lcdCursor t = (if lcdCursor s = 32 then 0 else lcdCursor s) + 1"
    and "utf8Buffer t = 0"
  using assms by (simp_all add: dispatched_def glyph_transfer_def)

lemma lcdCode_replacement: "lcdCode 0xfffd = 0xff"
  by (simp add: lcdCode_def)

lemma replacement_not_newline: "(0xfffd :: 32 word) \<noteq> 0x0a"
  by simp

lemma round_trip:
  assumes "cp \<le> 0x10FFFF" and "utf8Buffer s = 0"
  shows "dispatched cp s (fold lcd_writeChar (utf8_encode cp) s)"
    and "\<forall>k < length (utf8_encode cp).
           bus (fold lcd_writeChar (take k (utf8_encode cp)) s) = bus s \<and>
           lcdCursor (fold lcd_writeChar (take k (utf8_encode cp)) s) = lcdCursor s"
proof -
  consider "cp < 0x80" | "\<not> cp < 0x80" "cp < 0x800" | "\<not> cp < 0x800" "cp < 0x10000"
    | "\<not> cp < 0x10000"
    by blast
  then have "dispatched cp s (fold lcd_writeChar (utf8_encode cp) s) \<and>
      (\<forall>k < length (utf8_encode cp).
           bus (fold lcd_writeChar (take k (utf8_encode cp)) s) = bus s \<and>
           lcdCursor (fold lcd_writeChar (take k (utf8_encode cp)) s) = lcdCursor s)"
  proof cases
    case 1
    then show ?thesis
      using round_trip_1 [OF _ assms(2), of cp] by blast
  next
    case 2
    then show ?thesis
      using round_trip_2 [OF _ _ assms(2), of cp] by blast
  next
    case 3
    then show ?thesis
      using round_trip_3 [OF _ _ assms(2), of cp] by blast
  next
    case 4
    then show ?thesis
      using round_trip_4 [OF _ assms, of ] by blast
  qed
  then show "dispatched cp s (fold lcd_writeChar (utf8_encode cp) s)"
    and "\<forall>k < length (utf8_encode cp).
           bus (fold lcd_writeChar (take k (utf8_encode cp)) s) = bus s \<and>
           lcdCursor (fold lcd_writeChar (take k (utf8_encode cp)) s) = lcdCursor s"
    by blast+
qed

lemma utf8_encode_A: "utf8_encode 0x41 = [0x41]"
  by (simp add: utf8_encode_def)

lemma utf8_encode_left_arrow: "utf8_encode 0x2190 = [0xE2, 0x86, 0x90]"
  by (simp add: utf8_encode_def)

lemma lcdCode_A: "lcdCode 0x41 = 0x41"
  by (simp add: lcdCode_def)

lemma lcdCode_left_arrow: "lcdCode 0x2190 = 0x7f"
  by (simp add: lcdCode_def)

lemma scenario_A_left_arrow:
  assumes "utf8Buffer s = 0" and "lcdCursor s < 15"
  shows "bus (fold lcd_writeChar [0x41, 0xE2, 0x86, 0x90] s) =
           bus s @ byte_transfer True 0x41 46 @ byte_transfer True 0x7F 46"
    and "lcdCursor (fold lcd_writeChar [0x41, 0xE2, 0x86, 0x90] s) = lcdCursor s + 2"
proof -
  let ?t = "fold lcd_writeChar [0x41] s"
  have c: "lcdCursor s \<noteq> 32" "lcdCursor s \<noteq> 16" "lcdCursor s + 1 \<noteq> 32" "lcdCursor s + 1 \<noteq> 16"
    using assms(2) by (auto simp: word_less_nat_alt unat_word_ariths)
  have "dispatched 0x41 s (fold lcd_writeChar (utf8_encode 0x41) s)"
    by (rule round_trip(1) [OF _ assms(1)]) simp
  then have t: "bus ?t = bus s @ byte_transfer True 0x41 46" "lcdCursor ?t = lcdCursor s + 1"
      "utf8Buffer ?t = 0"
    using c by (simp_all add: dispatched_def utf8_encode_A lcdCode_A del: fold_simps)
  have "dispatched 0x2190 ?t (fold lcd_writeChar (utf8_encode 0x2190) ?t)"
    by (rule round_trip(1) [OF _ t(3)]) simp
  then have u: "bus (fold lcd_writeChar [0xE2, 0x86, 0x90] ?t) = bus ?t @ byte_transfer True 0x7F 46"
      "lcdCursor (fold lcd_writeChar [0xE2, 0x86, 0x90] ?t) = lcdCursor ?t + 1"
    using c t(2) by (simp_all add: dispatched_def utf8_encode_left_arrow lcdCode_left_arrow del: fold_simps)
  have split: "fold lcd_writeChar [0x41, 0xE2, 0x86, 0x90] s = fold lcd_writeChar [0xE2, 0x86, 0x90] ?t"
    by simp
  show "bus (fold lcd_writeChar [0x41, 0xE2, 0x86, 0x90] s) =
           bus s @ byte_transfer True 0x41 46 @ byte_transfer True 0x7F 46"
    unfolding split using u(1) t(1) by simp
  show "lcdCursor (fold lcd_writeChar [0x41, 0xE2, 0x86, 0x90] s) = lcdCursor s + 2"
    unfolding split using u(2) t(2) by simp
qed

text \<open>
  C3 (as amended). For every code point up to U+10FFFF, fed byte by byte in its UTF-8
  encoding to \<^verbatim>\<open>lcd_writeChar\<close> on an empty accumulator: no proper prefix of the encoding
  puts anything on the bus or moves the cursor, and the last byte leads to exactly one
  dispatch. For a code point other than U+000A the dispatch writes the glyph byte that the
  table maps the code point to, and advances the cursor; for U+000A it is the line break,
  which sends a cursor command and no glyph byte. On a cursor in the first 15 positions,
  the bytes \<open>0x41\<close>, \<open>0xE2 0x86 0x90\<close> write the glyph bytes \<open>0x41\<close> and \<open>0x7F\<close> and advance
  the cursor by 2.
\<close>

theorem utf8_round_trip:
  assumes "cp \<le> 0x10FFFF" and "utf8Buffer s = 0"
  shows "(\<forall>k < length (utf8_encode cp).
            bus (fold lcd_writeChar (take k (utf8_encode cp)) s) = bus s \<and>
            lcdCursor (fold lcd_writeChar (take k (utf8_encode cp)) s) = lcdCursor s) \<and>
         (cp \<noteq> 0x0a \<longrightarrow>
            bus (fold lcd_writeChar (utf8_encode cp) s)
              = bus s @ glyph_transfer (lcdCursor s) (lcdCode cp) \<and>
            lcdCursor (fold lcd_writeChar (utf8_encode cp) s)
              = (if lcdCursor s = 32 then 0 else lcdCursor s) + 1) \<and>
         (cp = 0x0a \<longrightarrow>
            bus (fold lcd_writeChar (utf8_encode cp) s)
              = bus s @ byte_transfer False
                          (0x80 OR ddram_address (if lcdCursor s < 16 then 16 else 32)) 42 \<and>
            lcdCursor (fold lcd_writeChar (utf8_encode cp) s)
              = (if lcdCursor s < 16 then 16 else 32)) \<and>
         utf8Buffer (fold lcd_writeChar (utf8_encode cp) s) = 0 \<and>
         (lcdCursor s < 15 \<longrightarrow>
            bus (fold lcd_writeChar [0x41, 0xE2, 0x86, 0x90] s)
              = bus s @ byte_transfer True 0x41 46 @ byte_transfer True 0x7F 46 \<and>
            lcdCursor (fold lcd_writeChar [0x41, 0xE2, 0x86, 0x90] s) = lcdCursor s + 2)"
proof -
  have f: "dispatched cp s (fold lcd_writeChar (utf8_encode cp) s)"
    by (rule round_trip(1) [OF assms])
  have p: "\<forall>k < length (utf8_encode cp).
            bus (fold lcd_writeChar (take k (utf8_encode cp)) s) = bus s \<and>
            lcdCursor (fold lcd_writeChar (take k (utf8_encode cp)) s) = lcdCursor s"
    by (rule round_trip(2) [OF assms])
  have g: "cp \<noteq> 0x0a \<longrightarrow>
            bus (fold lcd_writeChar (utf8_encode cp) s)
              = bus s @ glyph_transfer (lcdCursor s) (lcdCode cp) \<and>
            lcdCursor (fold lcd_writeChar (utf8_encode cp) s)
              = (if lcdCursor s = 32 then 0 else lcdCursor s) + 1"
    using dispatched_glyph(1,2) [OF f] by blast
  have n: "cp = 0x0a \<longrightarrow>
            bus (fold lcd_writeChar (utf8_encode cp) s)
              = bus s @ byte_transfer False
                          (0x80 OR ddram_address (if lcdCursor s < 16 then 16 else 32)) 42 \<and>
            lcdCursor (fold lcd_writeChar (utf8_encode cp) s)
              = (if lcdCursor s < 16 then 16 else 32)"
  proof
    assume "cp = 0x0a"
    with f show "bus (fold lcd_writeChar (utf8_encode cp) s)
              = bus s @ byte_transfer False
                          (0x80 OR ddram_address (if lcdCursor s < 16 then 16 else 32)) 42 \<and>
            lcdCursor (fold lcd_writeChar (utf8_encode cp) s)
              = (if lcdCursor s < 16 then 16 else 32)"
      unfolding dispatched_def by simp
  qed
  have b: "utf8Buffer (fold lcd_writeChar (utf8_encode cp) s) = 0"
    using f unfolding dispatched_def by blast
  have sc: "lcdCursor s < 15 \<longrightarrow>
            bus (fold lcd_writeChar [0x41, 0xE2, 0x86, 0x90] s)
              = bus s @ byte_transfer True 0x41 46 @ byte_transfer True 0x7F 46 \<and>
            lcdCursor (fold lcd_writeChar [0x41, 0xE2, 0x86, 0x90] s) = lcdCursor s + 2"
    using scenario_A_left_arrow [OF assms(2)] by blast
  show ?thesis
    using p g n b sc by blast
qed

theorem utf8_round_trip_witness:
  "(0x2190 :: 32 word) \<le> 0x10FFFF \<and> utf8Buffer lcd_power_on = 0 \<and>
   (0x2190 :: 32 word) \<noteq> 0x0a \<and> lcdCursor lcd_power_on < 15 \<and>
   utf8_encode 0x2190 = [0xE2, 0x86, 0x90] \<and>
   bus (fold lcd_writeChar [0xE2] lcd_power_on) = [] \<and>
   bus (fold lcd_writeChar [0xE2, 0x86] lcd_power_on) = [] \<and>
   bus (fold lcd_writeChar [0xE2, 0x86, 0x90] lcd_power_on) = byte_transfer True 0x7F 46 \<and>
   lcdCursor (fold lcd_writeChar [0xE2, 0x86, 0x90] lcd_power_on) = 1 \<and>
   bus (fold lcd_writeChar [0x41, 0xE2, 0x86, 0x90] lcd_power_on)
     = byte_transfer True 0x41 46 @ byte_transfer True 0x7F 46 \<and>
   lcdCursor (fold lcd_writeChar [0x41, 0xE2, 0x86, 0x90] lcd_power_on) = 2 \<and>
   bus (fold lcd_writeChar (utf8_encode 0x0a) lcd_power_on) = byte_transfer False 0xC0 42"
proof -
  have r: "(0x2190 :: 32 word) \<le> 0x10FFFF" "(0x0a :: 32 word) \<le> 0x10FFFF"
    by simp_all
  have e: "utf8Buffer lcd_power_on = 0"
    by (simp add: lcd_power_on_def)
  have c: "lcdCursor lcd_power_on = 0" "bus lcd_power_on = []"
    by (simp_all add: lcd_power_on_def)
  note a = utf8_round_trip [OF r(1) e, unfolded utf8_encode_left_arrow lcdCode_left_arrow c]
  note n = utf8_round_trip [OF r(2) e, unfolded c]
  show ?thesis
    using a n e
    by (simp add: All_less_Suc glyph_transfer_def ddram_address_def c utf8_encode_left_arrow)
qed

text \<open>
  C3 as stated fails at U+000A: its one byte is dispatched, but as a line break. The only
  transfer is the command \<open>0xC0\<close> to the instruction register; no glyph byte is written.
\<close>

theorem utf8_line_feed_writes_no_glyph:
  "utf8_encode 0x0a = [0x0a] \<and>
   bus (fold lcd_writeChar (utf8_encode 0x0a) lcd_power_on) =
     [DelayUs 1, DelayUs 1, Pulse False 0xC, DelayUs 1,
      DelayUs 1, DelayUs 1, Pulse False 0x0, DelayUs 1, DelayUs 42] \<and>
   lcdCursor (fold lcd_writeChar (utf8_encode 0x0a) lcd_power_on) = 16"
proof -
  have e: "utf8_encode 0x0a = [0x0a]"
    by (simp add: utf8_encode_def)
  have d: "utf8_decode (push_bit 8 (utf8Buffer lcd_power_on) OR ucast (0x0a :: 8 word)) = Some 0x0a"
    by (simp add: lcd_power_on_def utf8_decode_newline)
  have c: "lcdCursor lcd_power_on = 0" "bus lcd_power_on = []"
    by (simp_all add: lcd_power_on_def)
  show ?thesis
    by (simp add: e lcd_writeChar_newline [OF d] updateCursor_bus c
          ddram_address_def byte_transfer_def nibble_transfer_def)
qed

subsection \<open>Malformed input\<close>

text \<open>
  Where the leading byte of a 2-, 3- or 4-byte shape has been seen, malformed input is
  resolved: on an empty accumulator, a sequence that begins with such a byte and has the
  length of its shape, but in which a following byte is not of the form \<open>10xxxxxx\<close>, is
  buffered up to its last byte and there dispatched as U+FFFD. The glyph byte \<open>0xFF\<close> is
  written and the accumulator is emptied. A first byte of the form \<open>10xxxxxx\<close> or
  \<open>11111xxx\<close> is buffered, and the accumulator is not emptied.
\<close>

lemma utf8_malformed_replacement:
  assumes "utf8Buffer s = 0"
  shows "(b1 AND 0xE0 = 0xC0 \<and> b2 AND 0xC0 \<noteq> 0x80 \<longrightarrow>
            bus (lcd_writeChar b1 s) = bus s \<and>
            bus (fold lcd_writeChar [b1, b2] s) = bus s @ glyph_transfer (lcdCursor s) 0xFF \<and>
            utf8Buffer (fold lcd_writeChar [b1, b2] s) = 0) \<and>
         (b1 AND 0xF0 = 0xE0 \<and> \<not> (b2 AND 0xC0 = 0x80 \<and> b3 AND 0xC0 = 0x80) \<longrightarrow>
            bus (fold lcd_writeChar [b1, b2] s) = bus s \<and>
            bus (fold lcd_writeChar [b1, b2, b3] s) = bus s @ glyph_transfer (lcdCursor s) 0xFF \<and>
            utf8Buffer (fold lcd_writeChar [b1, b2, b3] s) = 0) \<and>
         (b1 AND 0xF8 = 0xF0 \<and>
            \<not> (b2 AND 0xC0 = 0x80 \<and> b3 AND 0xC0 = 0x80 \<and> b4 AND 0xC0 = 0x80) \<longrightarrow>
            bus (fold lcd_writeChar [b1, b2, b3] s) = bus s \<and>
            bus (fold lcd_writeChar [b1, b2, b3, b4] s) = bus s @ glyph_transfer (lcdCursor s) 0xFF \<and>
            utf8Buffer (fold lcd_writeChar [b1, b2, b3, b4] s) = 0) \<and>
         (b1 AND 0xC0 = 0x80 \<or> b1 AND 0xF8 = 0xF8 \<longrightarrow>
            lcd_writeChar b1 s = s\<lparr>utf8Buffer := ucast b1\<rparr>)"
proof (intro conjI impI)
  have s: "s = s\<lparr>utf8Buffer := 0\<rparr>"
    using assms by simp
  {
    assume a: "b1 AND 0xE0 = 0xC0 \<and> b2 AND 0xC0 \<noteq> 0x80"
    then have d1: "utf8_decode (push_bit 8 0 OR ucast b1) = None"
      and d2: "utf8_decode (push_bit 8 (push_bit 8 0 OR ucast b1) OR ucast b2) = Some 0xfffd"
      using malformed_2 [of b1 b2] by simp_all
    have s1: "lcd_writeChar b1 s = s\<lparr>utf8Buffer := push_bit 8 0 OR ucast b1\<rparr>"
      using buffered [OF d1, of s] s by simp
    have f: "dispatched 0xfffd s (lcd_writeChar b2 (lcd_writeChar b1 s))"
      unfolding s1 by (rule dispatched_last [OF d2])
    show "bus (lcd_writeChar b1 s) = bus s"
      by (simp add: s1)
    show "bus (fold lcd_writeChar [b1, b2] s) = bus s @ glyph_transfer (lcdCursor s) 0xFF"
      using dispatched_glyph(1) [OF f replacement_not_newline] by (simp add: lcdCode_replacement)
    show "utf8Buffer (fold lcd_writeChar [b1, b2] s) = 0"
      using dispatched_glyph(3) [OF f replacement_not_newline] by simp
  }
  {
    assume a: "b1 AND 0xF0 = 0xE0 \<and> \<not> (b2 AND 0xC0 = 0x80 \<and> b3 AND 0xC0 = 0x80)"
    then have d1: "utf8_decode (push_bit 8 0 OR ucast b1) = None"
      and d2: "utf8_decode (push_bit 8 (push_bit 8 0 OR ucast b1) OR ucast b2) = None"
      and d3: "utf8_decode (push_bit 8 (push_bit 8 (push_bit 8 0 OR ucast b1) OR ucast b2)
                 OR ucast b3) = Some 0xfffd"
      using malformed_3 [of b1 b2 b3] by simp_all
    have s1: "lcd_writeChar b1 s = s\<lparr>utf8Buffer := push_bit 8 0 OR ucast b1\<rparr>"
      using buffered [OF d1, of s] s by simp
    have s2: "lcd_writeChar b2 (lcd_writeChar b1 s) =
        s\<lparr>utf8Buffer := push_bit 8 (push_bit 8 0 OR ucast b1) OR ucast b2\<rparr>"
      unfolding s1 by (rule buffered [OF d2])
    have f: "dispatched 0xfffd s (lcd_writeChar b3 (lcd_writeChar b2 (lcd_writeChar b1 s)))"
      unfolding s2 by (rule dispatched_last [OF d3])
    show "bus (fold lcd_writeChar [b1, b2] s) = bus s"
      by (simp add: s2)
    show "bus (fold lcd_writeChar [b1, b2, b3] s) = bus s @ glyph_transfer (lcdCursor s) 0xFF"
      using dispatched_glyph(1) [OF f replacement_not_newline] by (simp add: lcdCode_replacement)
    show "utf8Buffer (fold lcd_writeChar [b1, b2, b3] s) = 0"
      using dispatched_glyph(3) [OF f replacement_not_newline] by simp
  }
  {
    assume a: "b1 AND 0xF8 = 0xF0 \<and>
        \<not> (b2 AND 0xC0 = 0x80 \<and> b3 AND 0xC0 = 0x80 \<and> b4 AND 0xC0 = 0x80)"
    then have d1: "utf8_decode (push_bit 8 0 OR ucast b1) = None"
      and d2: "utf8_decode (push_bit 8 (push_bit 8 0 OR ucast b1) OR ucast b2) = None"
      and d3: "utf8_decode (push_bit 8 (push_bit 8 (push_bit 8 0 OR ucast b1) OR ucast b2)
                 OR ucast b3) = None"
      and d4: "utf8_decode (push_bit 8 (push_bit 8 (push_bit 8 (push_bit 8 0 OR ucast b1)
                 OR ucast b2) OR ucast b3) OR ucast b4) = Some 0xfffd"
      using malformed_4 [of b1 b2 b3 b4] by simp_all
    have s1: "lcd_writeChar b1 s = s\<lparr>utf8Buffer := push_bit 8 0 OR ucast b1\<rparr>"
      using buffered [OF d1, of s] s by simp
    have s2: "lcd_writeChar b2 (lcd_writeChar b1 s) =
        s\<lparr>utf8Buffer := push_bit 8 (push_bit 8 0 OR ucast b1) OR ucast b2\<rparr>"
      unfolding s1 by (rule buffered [OF d2])
    have s3: "lcd_writeChar b3 (lcd_writeChar b2 (lcd_writeChar b1 s)) =
        s\<lparr>utf8Buffer := push_bit 8 (push_bit 8 (push_bit 8 0 OR ucast b1) OR ucast b2)
              OR ucast b3\<rparr>"
      unfolding s2 by (rule buffered [OF d3])
    have f: "dispatched 0xfffd s
        (lcd_writeChar b4 (lcd_writeChar b3 (lcd_writeChar b2 (lcd_writeChar b1 s))))"
      unfolding s3 by (rule dispatched_last [OF d4])
    show "bus (fold lcd_writeChar [b1, b2, b3] s) = bus s"
      by (simp add: s3)
    show "bus (fold lcd_writeChar [b1, b2, b3, b4] s) = bus s @ glyph_transfer (lcdCursor s) 0xFF"
      using dispatched_glyph(1) [OF f replacement_not_newline] by (simp add: lcdCode_replacement)
    show "utf8Buffer (fold lcd_writeChar [b1, b2, b3, b4] s) = 0"
      using dispatched_glyph(3) [OF f replacement_not_newline] by simp
  }
  {
    assume "b1 AND 0xC0 = 0x80 \<or> b1 AND 0xF8 = 0xF8"
    then have "utf8_decode (push_bit 8 0 OR ucast b1) = None"
      using stray_byte [of b1] by simp
    from buffered [OF this, of s] show "lcd_writeChar b1 s = s\<lparr>utf8Buffer := ucast b1\<rparr>"
      using s by simp
  }
qed

lemma utf8_malformed_replacement_examples:
  "utf8Buffer lcd_power_on = 0 \<and>
   bus (fold lcd_writeChar [0xC3, 0x41] lcd_power_on) = byte_transfer True 0xFF 46 \<and>
   bus (fold lcd_writeChar [0xE2, 0x41] lcd_power_on) = [] \<and>
   bus (fold lcd_writeChar [0xE2, 0x41, 0x42] lcd_power_on) = byte_transfer True 0xFF 46 \<and>
   bus (fold lcd_writeChar [0xF0, 0x90, 0x80] lcd_power_on) = [] \<and>
   bus (fold lcd_writeChar [0xF0, 0x90, 0x80, 0x41] lcd_power_on) = byte_transfer True 0xFF 46 \<and>
   lcd_writeChar 0x80 lcd_power_on = lcd_power_on\<lparr>utf8Buffer := 0x80\<rparr>"
proof -
  have e: "utf8Buffer lcd_power_on = 0"
    by (simp add: lcd_power_on_def)
  have c: "lcdCursor lcd_power_on = 0" "bus lcd_power_on = []"
    by (simp_all add: lcd_power_on_def)
  note m2 = utf8_malformed_replacement [OF e, of "0xC3" "0x41" 0 0, unfolded c]
  note m3 = utf8_malformed_replacement [OF e, of "0xE2" "0x41" "0x42" 0, unfolded c]
  note m4 = utf8_malformed_replacement [OF e, of "0xF0" "0x90" "0x80" "0x41", unfolded c]
  note m1 = utf8_malformed_replacement [OF e, of "0x80" 0 0 0, unfolded c]
  show ?thesis
    using m2 m3 m4 m1 e by (simp add: glyph_transfer_def)
qed

text \<open>
  After a byte with the top bit set that begins no sequence, the decoder stalls: whatever
  bytes follow, as long as none is 0 and none begins a sequence (all ASCII text, for one),
  nothing reaches the bus, the cursor stays, and the accumulator is never emptied.
\<close>

lemma shifted_test_4:
  assumes "(push_bit 8 buf OR ucast (c :: 8 word)) AND 0xf8000000 = (0xf0000000 :: 32 word)"
  shows "(ucast (drop_bit 16 buf) :: 8 word) AND 0xF8 = 0xF0"
  using assms by (simp add: word32_bits word8_bits bit_simps byte_high del: bit_0)

lemma shifted_test_3:
  assumes "(push_bit 8 buf OR ucast (c :: 8 word)) AND 0xfff00000 = (0x00e00000 :: 32 word)"
  shows "(ucast (drop_bit 8 buf) :: 8 word) AND 0xF0 = 0xE0"
  using assms by (simp add: word32_bits word8_bits bit_simps byte_high del: bit_0)

lemma shifted_test_2:
  assumes "(push_bit 8 buf OR ucast (c :: 8 word)) AND 0xffffe000 = (0x0000c000 :: 32 word)"
  shows "(ucast buf :: 8 word) AND 0xE0 = 0xC0"
  using assms by (simp add: word32_bits word8_bits bit_simps byte_high del: bit_0)

lemma shifted_test_1:
  assumes "(push_bit 8 buf OR ucast (c :: 8 word)) AND 0xffffff80 = (0 :: 32 word)"
  shows "(ucast buf :: 8 word) = 0"
  using assms by (simp add: word32_bits word8_bits bit_simps byte_high del: bit_0)

lemma shifted_bytes:
  "(ucast (push_bit 8 buf OR ucast (c :: 8 word) :: 32 word) :: 8 word) = c"
  "(ucast (drop_bit 8 (push_bit 8 buf OR ucast (c :: 8 word) :: 32 word)) :: 8 word) = ucast buf"
  "(ucast (drop_bit 16 (push_bit 8 buf OR ucast (c :: 8 word) :: 32 word)) :: 8 word)
     = ucast (drop_bit 8 buf)"
  by (simp_all add: word8_bits bit_simps byte_high del: bit_0)

lemma stalled_decode:
  assumes "stalled buf"
  shows "utf8_decode (push_bit 8 buf OR ucast (c :: 8 word)) = None"
proof -
  let ?B = "push_bit 8 buf OR ucast c :: 32 word"
  have t4: "?B AND 0xf8000000 \<noteq> 0xf0000000"
    using assms shifted_test_4 [of buf c] by (auto simp add: stalled_def begins_sequence_def)
  have t3: "?B AND 0xfff00000 \<noteq> 0x00e00000"
    using assms shifted_test_3 [of buf c] by (auto simp add: stalled_def begins_sequence_def)
  have t2: "?B AND 0xffffe000 \<noteq> 0x0000c000"
    using assms shifted_test_2 [of buf c] by (auto simp add: stalled_def begins_sequence_def)
  have t1: "?B AND 0xffffff80 \<noteq> 0"
    using assms shifted_test_1 [of buf c] by (auto simp add: stalled_def)
  show ?thesis
    using t4 t3 t2 t1 by (simp add: utf8_decode_def)
qed

lemma stalled_step:
  assumes "stalled buf" and "c \<noteq> 0" and "\<not> begins_sequence c"
  shows "stalled (push_bit 8 buf OR ucast c)"
  using assms by (simp only: stalled_def shifted_bytes) blast

lemma stalled_first:
  assumes "bit b 7" and "\<not> begins_sequence b"
  shows "utf8_decode (push_bit 8 0 OR ucast b) = None" and "stalled (push_bit 8 0 OR ucast b)"
proof -
  show "utf8_decode (push_bit 8 0 OR ucast b) = None"
    using assms(1) by (simp add: utf8_decode_def word32_bits bit_simps byte_high del: bit_0)
  have z: "\<not> begins_sequence 0"
    by (simp add: begins_sequence_def)
  have "b \<noteq> 0"
    using assms(1) by auto
  then show "stalled (push_bit 8 0 OR ucast b)"
    using assms(2) z by (simp only: stalled_def shifted_bytes) simp
qed

lemma stalled_fold:
  assumes "stalled (utf8Buffer s)" and "\<forall>c \<in> set cs. c \<noteq> 0 \<and> \<not> begins_sequence c"
  shows "bus (fold lcd_writeChar cs s) = bus s \<and>
         lcdCursor (fold lcd_writeChar cs s) = lcdCursor s \<and>
         stalled (utf8Buffer (fold lcd_writeChar cs s))"
  using assms
proof (induction cs arbitrary: s)
  case Nil
  then show ?case by simp
next
  case (Cons c cs)
  let ?t = "lcd_writeChar c s"
  have t: "?t = s\<lparr>utf8Buffer := push_bit 8 (utf8Buffer s) OR ucast c\<rparr>"
    by (rule lcd_writeChar_incomplete) (rule stalled_decode [OF Cons.prems(1)])
  have "stalled (utf8Buffer ?t)"
    using Cons.prems stalled_step [of "utf8Buffer s" c] by (simp add: t)
  moreover have "\<forall>c \<in> set cs. c \<noteq> 0 \<and> \<not> begins_sequence c"
    using Cons.prems(2) by simp
  ultimately have "bus (fold lcd_writeChar cs ?t) = bus ?t \<and>
         lcdCursor (fold lcd_writeChar cs ?t) = lcdCursor ?t \<and>
         stalled (utf8Buffer (fold lcd_writeChar cs ?t))"
    by (rule Cons.IH)
  then show ?case
    by (simp add: t)
qed

lemma decoder_stalls:
  assumes "utf8Buffer s = 0" and "bit b 7" and "\<not> begins_sequence b"
    and "\<forall>c \<in> set cs. c \<noteq> 0 \<and> \<not> begins_sequence c"
  shows "bus (fold lcd_writeChar (b # cs) s) = bus s \<and>
         lcdCursor (fold lcd_writeChar (b # cs) s) = lcdCursor s \<and>
         utf8Buffer (fold lcd_writeChar (b # cs) s) \<noteq> 0"
proof -
  let ?t = "lcd_writeChar b s"
  have s: "s = s\<lparr>utf8Buffer := 0\<rparr>"
    using assms(1) by simp
  have "utf8_decode (push_bit 8 (utf8Buffer s) OR ucast b) = None"
    using stalled_first(1) [OF assms(2,3)] assms(1) by simp
  then have t: "?t = s\<lparr>utf8Buffer := push_bit 8 (utf8Buffer s) OR ucast b\<rparr>"
    by (rule lcd_writeChar_incomplete)
  have "stalled (utf8Buffer ?t)"
    using stalled_first(2) [OF assms(2,3)] assms(1) by (simp add: t)
  from stalled_fold [OF this assms(4)]
  have r: "bus (fold lcd_writeChar cs ?t) = bus s \<and>
         lcdCursor (fold lcd_writeChar cs ?t) = lcdCursor s \<and>
         stalled (utf8Buffer (fold lcd_writeChar cs ?t))"
    by (simp add: t)
  have "\<And>buf. stalled buf \<Longrightarrow> buf \<noteq> 0"
    by (auto simp add: stalled_def)
  with r show ?thesis
    by auto
qed

text \<open>
  C4. The byte \<open>0xFF\<close> on an empty accumulator matches none of the four shapes and is no
  continuation byte. The decoder takes the branch "Incomplete character, wait for more":
  no U+FFFD is dispatched, the byte stays in the accumulator, and the five letters after it
  are buffered as well. After the stray continuation byte \<open>0x80\<close>, the well-formed sequence
  \<open>0xC3 0xA4\<close> and the two letters after it write nothing either.
\<close>

theorem utf8_invalid_byte_is_buffered:
  "lcd_writeChar 0xFF lcd_power_on = lcd_power_on\<lparr>utf8Buffer := 0xFF\<rparr> \<and>
   bus (fold lcd_writeChar [0xFF, 0x41, 0x42, 0x43, 0x44, 0x45] lcd_power_on) = [] \<and>
   utf8Buffer (fold lcd_writeChar [0xFF, 0x41, 0x42, 0x43, 0x44, 0x45] lcd_power_on) = 0x42434445 \<and>
   bus (fold lcd_writeChar [0x80, 0xC3, 0xA4, 0x41, 0x42] lcd_power_on) = [] \<and>
   utf8Buffer (fold lcd_writeChar [0x80, 0xC3, 0xA4, 0x41, 0x42] lcd_power_on) = 0xC3A44142"
  by (simp add: lcd_writeChar_def Let_def utf8_decode_def lcd_power_on_def)

end
